theory Spec2Isabelle
  imports Complex_Main "HOL-Library.Sublist" "HOL-Library.AList"
begin

section \<open>Strings\<close>

text \<open>
  A JavaScript string is modelled as a \<^typ>\<open>string\<close>: a list of code units, restricted
  to the code units below 256 (the Latin-1 range), which is all a \<^typ>\<open>char\<close> can hold.
  The characters the CSV parser singles out are named here.
\<close>

abbreviation DQUOTE :: char where "DQUOTE \<equiv> CHR 0x22"
abbreviation COMMA :: char where "COMMA \<equiv> CHR 0x2C"
abbreviation LF :: char where "LF \<equiv> CHR 0x0A"
abbreviation CR :: char where "CR \<equiv> CHR 0x0D"

section \<open>CSV ingestion (csvPosts.ts)\<close>

subsection \<open>parseCsv\<close>

text \<open>
  \<open>input[i + 1]\<close> is \<open>undefined\<close> at the end of the input, which is equal to no
  character: \<open>nextIs c cs\<close> is the test \<open>next === c\<close> where \<open>cs\<close> is what follows the
  current character.
\<close>

fun nextIs :: "char \<Rightarrow> string \<Rightarrow> bool" where
  "nextIs c [] = False"
| "nextIs c (n # cs) = (n = c)"

text \<open>\<open>row.some((cell) => cell.length > 0)\<close>, and the \<open>rows.push(row)\<close> it guards.\<close>

definition nonBlankRow :: "string list \<Rightarrow> bool" where
  "nonBlankRow row = list_ex (\<lambda>cell. length cell > 0) row"

definition pushRow :: "string list list \<Rightarrow> string list \<Rightarrow> string list list" where
  "pushRow rows row = (if nonBlankRow row then rows @ [row] else rows)"

text \<open>
  The \<open>for\<close> loop of \<open>parseCsv\<close>, with its four variables \<open>rows\<close>, \<open>row\<close>, \<open>field\<close>
  and \<open>inQuotes\<close>; the last argument is the input from index \<open>i\<close> on. An \<open>i += 1\<close> in
  the body skips the next character. The base case is the code after the loop.
\<close>

fun parseCsvLoop ::
  "string list list \<Rightarrow> string list \<Rightarrow> string \<Rightarrow> bool \<Rightarrow> string \<Rightarrow> string list list" where
  "parseCsvLoop rows row field inQuotes [] = pushRow rows (row @ [field])"
| "parseCsvLoop rows row field inQuotes (c # cs) =
     (if c = DQUOTE then
        (if inQuotes \<and> nextIs DQUOTE cs
         then parseCsvLoop rows row (field @ [DQUOTE]) inQuotes (tl cs)
         else parseCsvLoop rows row field (\<not> inQuotes) cs)
      else if c = COMMA \<and> \<not> inQuotes then
        parseCsvLoop rows (row @ [field]) [] inQuotes cs
      else if (c = LF \<or> c = CR) \<and> \<not> inQuotes then
        parseCsvLoop (pushRow rows (row @ [field])) [] [] inQuotes
          (if c = CR \<and> nextIs LF cs then tl cs else cs)
      else parseCsvLoop rows row (field @ [c]) inQuotes cs)"

definition parseCsv :: "string \<Rightarrow> string list list" where
  "parseCsv input = parseCsvLoop [] [] [] False input"

subsection \<open>Posts (types.ts)\<close>

text \<open>
  \<open>Post\<close> and \<open>CsvPost = Post & {...}\<close>; a field declared with \<open>?\<close> is an option. The
  fields \<open>id\<close> and \<open>type\<close> carry a prime, the plain names being taken.
\<close>

record post =
  id' :: string
  title :: string
  body :: "string option"
  author :: "string option"
  url :: "string option"
  tags :: "string list option"
  type' :: "string option"

record csvPost = post +
  model :: "string option"
  baseModel :: "string option"
  version :: "string option"
  hwNumber :: "string option"
  name :: "string option"
  titleRaw :: "string option"
  threadId :: "string option"

subsection \<open>String.prototype.trim\<close>

text \<open>
  The white space and line terminators of ECMAScript among the code units below 256:
  tab, line feed, vertical tab, form feed, carriage return, space and no-break space.
\<close>

definition isSpace :: "char \<Rightarrow> bool" where
  "isSpace c = (c = CHR 0x09 \<or> c = LF \<or> c = CHR 0x0B \<or> c = CHR 0x0C \<or> c = CR \<or>
     c = CHR 0x20 \<or> c = CHR 0xA0)"

definition trim :: "string \<Rightarrow> string" where
  "trim s = rev (dropWhile isSpace (rev (dropWhile isSpace s)))"

subsection \<open>buildRecord\<close>

text \<open>
  A \<open>Record<string, string>\<close> is a map from keys to values. The loop over \<open>i\<close> walks
  the header and the row together: \<open>row[i]\<close> is \<open>undefined\<close> past the end of the row,
  and \<open>row[i] ?? ""\<close> is then the empty string. An assignment to the key \<open>__proto__\<close>
  of an object literal calls the setter of \<open>Object.prototype\<close>, which ignores a string:
  no key is bound.
\<close>

type_synonym fields = "string \<rightharpoonup> string"

fun buildRecordLoop :: "string list \<Rightarrow> string list \<Rightarrow> fields \<Rightarrow> fields" where
  "buildRecordLoop [] row record = record"
| "buildRecordLoop (key # header) row record =
     buildRecordLoop header (tl row)
       (if key = [] then record
        else if key = ''__proto__'' then record
        else record(key \<mapsto> (case row of [] \<Rightarrow> [] | v # _ \<Rightarrow> v)))"

definition buildRecord :: "string list \<Rightarrow> string list \<Rightarrow> fields option" where
  "buildRecord header row = (if row = [] then None else Some (buildRecordLoop header row Map.empty))"

subsection \<open>toThread\<close>

text \<open>
  \<open>a || b\<close> on strings that may be \<open>undefined\<close>: \<open>a\<close> when it is a non-empty string,
  \<open>b\<close> otherwise. \<open>record.key ?? ""\<close> is \<open>orEmpty\<close>.
\<close>

fun truthy :: "string option \<Rightarrow> bool" where
  "truthy None = False"
| "truthy (Some s) = (s \<noteq> [])"

definition orEmpty :: "string option \<Rightarrow> string" where
  "orEmpty v = (case v of None \<Rightarrow> [] | Some s \<Rightarrow> s)"

text \<open>
  \<open>crypto.randomUUID()\<close> is the argument \<open>uuid\<close>: the value the call would return,
  used only when the trimmed \<open>thread_id\<close> is empty.
\<close>

definition toThread :: "fields \<Rightarrow> string \<Rightarrow> csvPost" where
  "toThread record uuid =
     (let titleClean = map_option trim (record ''title_clean'');
          titleRaw_v = map_option trim (record ''title_raw'');
          hwNumber_v = trim (orEmpty (record ''hw_number''));
          model_v = trim (orEmpty (record ''model''));
          baseModel_v = trim (orEmpty (record ''base_model''));
          version_v = trim (orEmpty (record ''version''));
          name_v = trim (orEmpty (record ''name''));
          text_v = orEmpty (record ''text'');
          url_v = map_option trim (record ''url'');
          threadId_v = trim (orEmpty (record ''thread_id''));
          tags_v = filter (\<lambda>t. t \<noteq> [])
            [if hwNumber_v \<noteq> [] then ''hw:'' @ hwNumber_v else [],
             if model_v \<noteq> [] then ''model:'' @ model_v else [],
             if baseModel_v \<noteq> [] then ''base_model:'' @ baseModel_v else [],
             if version_v \<noteq> [] then ''version:'' @ version_v else []]
      in \<lparr> id' = (if threadId_v \<noteq> [] then threadId_v else uuid),
           title = (if truthy titleClean then the titleClean
                    else if truthy titleRaw_v then the titleRaw_v else ''Untitled''),
           body = Some text_v,
           author = Some (if name_v \<noteq> [] then name_v else ''Unknown author''),
           url = (if truthy url_v then url_v else None),
           tags = Some tags_v,
           type' = Some ''special_participation'',
           model = Some model_v,
           baseModel = Some baseModel_v,
           version = Some version_v,
           hwNumber = Some hwNumber_v,
           name = Some name_v,
           titleRaw = titleRaw_v,
           threadId = Some threadId_v \<rparr>)"

subsection \<open>dedupeById\<close>

text \<open>The loop over \<open>threads\<close> with its set \<open>seen\<close> and its output list \<open>out\<close>.\<close>

fun dedupeLoop :: "string set \<Rightarrow> ('a post_scheme) list \<Rightarrow> ('a post_scheme) list \<Rightarrow> ('a post_scheme) list" where
  "dedupeLoop seen out [] = out"
| "dedupeLoop seen out (thread # threads) =
     (if id' thread \<in> seen then dedupeLoop seen out threads
      else dedupeLoop (insert (id' thread) seen) (out @ [thread]) threads)"

definition dedupeById :: "('a post_scheme) list \<Rightarrow> ('a post_scheme) list" where
  "dedupeById threads = dedupeLoop {} [] threads"

subsection \<open>fetchCsvPosts\<close>

text \<open>
  What \<open>fetchCsvPosts\<close> returns. What the world gives it: the outcome of
  \<open>fs.readFile\<close>, either the message of the error it throws (\<open>Inl\<close>) or the text of the
  file (\<open>Inr\<close>), and the values \<open>uuids 0\<close>, \<open>uuids 1\<close>, ... that the successive calls
  of \<open>crypto.randomUUID\<close> return.
\<close>

record fetched =
  threads :: "csvPost list"
  source :: string
  warning :: "string option"

text \<open>
  \<open>records.filter((record) => record).map((record) => toThread(record))\<close>: a
  \<open>null\<close> record is skipped; \<open>n\<close> counts the calls of \<open>crypto.randomUUID\<close> made so
  far.
\<close>

fun toThreads :: "(nat \<Rightarrow> string) \<Rightarrow> nat \<Rightarrow> fields option list \<Rightarrow> csvPost list" where
  "toThreads uuids n [] = []"
| "toThreads uuids n (None # records) = toThreads uuids n records"
| "toThreads uuids n (Some record # records) =
     (if trim (orEmpty (record ''thread_id'')) \<noteq> []
      then toThread record [] # toThreads uuids n records
      else toThread record (uuids n) # toThreads uuids (Suc n) records)"

definition fetchCsvPosts :: "string + string \<Rightarrow> (nat \<Rightarrow> string) \<Rightarrow> fetched" where
  "fetchCsvPosts readFile uuids =
     (case readFile of
        Inl message \<Rightarrow>
          \<lparr> threads = [], source = ''csv'',
            warning = Some (''Failed to read CSV ('' @ message @ '').'') \<rparr>
      | Inr csv \<Rightarrow>
          (case parseCsv csv of
             [] \<Rightarrow> \<lparr> threads = [], source = ''csv'', warning = Some ''CSV file is empty.'' \<rparr>
           | header # rows \<Rightarrow>
               \<lparr> threads = dedupeById (toThreads uuids 0 (map (buildRecord header) rows)),
                 source = ''csv'', warning = None \<rparr>))"

subsection \<open>The quoting rules of the specification\<close>

text \<open>
  These three definitions follow the words of the specification, not the code: a field
  wrapped in double quotes with every embedded double quote doubled, the fields of a row
  separated by commas, and every row ended by a line break. \<open>parseCsv\<close> is compared
  with them below.
\<close>

definition escapeQuotes :: "string \<Rightarrow> string" where
  "escapeQuotes s = concat (map (\<lambda>c. if c = DQUOTE then [DQUOTE, DQUOTE] else [c]) s)"

definition quoteField :: "string \<Rightarrow> string" where
  "quoteField s = DQUOTE # escapeQuotes s @ [DQUOTE]"

fun quotedLine :: "string list \<Rightarrow> string" where
  "quotedLine [] = []"
| "quotedLine [f] = quoteField f"
| "quotedLine (f # g # fs) = quoteField f @ COMMA # quotedLine (g # fs)"

definition quotedText :: "string list list \<Rightarrow> string" where
  "quotedText rs = concat (map (\<lambda>r. quotedLine r @ [LF]) rs)"

text \<open>
  The file of the scenario of C2: a header and two data rows with the same \<open>thread_id\<close>.
\<close>

definition twoRowsCsv :: string where
  "twoRowsCsv = ''thread_id,title_clean'' @ [LF] @ ''7,first'' @ [LF] @ ''7,second'' @ [LF]"

section \<open>Grouping (ai.ts)\<close>

subsection \<open>Characters and regular expressions\<close>

text \<open>
  \<open>String.prototype.toLowerCase\<close> on the code units below 256: the capital letters
  \<open>A\<close> to \<open>Z\<close> and the capital Latin-1 letters \<open>0xC0\<close> to \<open>0xDE\<close> (without the
  multiplication sign \<open>0xD7\<close>) move up by 32; every other code unit stays.
\<close>

definition toLowerChar :: "char \<Rightarrow> char" where
  "toLowerChar c =
     (let n = (of_char c :: nat)
      in if (65 \<le> n \<and> n \<le> 90) \<or> (192 \<le> n \<and> n \<le> 222 \<and> n \<noteq> 215)
         then char_of (n + 32) else c)"

definition toLowerCase :: "string \<Rightarrow> string" where
  "toLowerCase s = map toLowerChar s"

text \<open>The classes \<open>[0-9]\<close> (also \<open>\d\<close>) and \<open>\w\<close>; \<open>\s\<close> is \<open>isSpace\<close>.\<close>

definition isDigit :: "char \<Rightarrow> bool" where
  "isDigit c = (let n = (of_char c :: nat) in 48 \<le> n \<and> n \<le> 57)"

definition isWordChar :: "char \<Rightarrow> bool" where
  "isWordChar c =
     (let n = (of_char c :: nat)
      in (48 \<le> n \<and> n \<le> 57) \<or> (65 \<le> n \<and> n \<le> 90) \<or> (97 \<le> n \<and> n \<le> 122) \<or> n = 95)"

text \<open>
  The regular expressions of the source use a small part of the language; a pattern is
  a sequence of these items. All of them that hold a letter carry the flag \<open>i\<close>: a
  literal is compared without regard to the case of ASCII letters (a code unit from 128
  on never matches an ASCII letter).
  \<^item> \<open>Bnd\<close> is \<open>\b\<close>, \<open>Start\<close> is \<open>^\<close> (without the flag \<open>m\<close>);
  \<^item> \<open>Lit s\<close> is the literal \<open>s\<close>;
  \<^item> \<open>Rep cls lo hi\<close> is a class repeated \<open>lo\<close> to \<open>hi\<close> times (\<open>None\<close>: no bound),
    greedy: \<open>\s*\<close> is \<open>Rep isSpace 0 None\<close>, \<open>[-\s]?\<close> is \<open>Rep cls 0 (Some 1)\<close>;
  \<^item> \<open>Cap cls lo hi\<close> is the same inside the capturing group 1;
  \<^item> \<open>OptAlt ls\<close> is an optional group of alternative literals, \<open>(a|b|c)?\<close>.
\<close>

datatype rx =
    Bnd
  | Start
  | Lit string
  | Rep "char \<Rightarrow> bool" nat "nat option"
  | Cap "char \<Rightarrow> bool" nat "nat option"
  | OptAlt "string list"

definition ciEq :: "char \<Rightarrow> char \<Rightarrow> bool" where
  "ciEq a b =
     (let up = (\<lambda>c. let n = (of_char c :: nat) in if 97 \<le> n \<and> n \<le> 122 then char_of (n - 32) else c)
      in up a = up b)"

fun ciPrefix :: "string \<Rightarrow> string \<Rightarrow> bool" where
  "ciPrefix [] s = True"
| "ciPrefix (a # l) [] = False"
| "ciPrefix (a # l) (b # s) = (ciEq a b \<and> ciPrefix l s)"

fun firstSome :: "'a option list \<Rightarrow> 'a option" where
  "firstSome [] = None"
| "firstSome (Some x # xs) = Some x"
| "firstSome (None # xs) = firstSome xs"

text \<open>The character before position \<open>k\<close> of \<open>s\<close>, \<open>prev\<close> being the one before \<open>s\<close>.\<close>

definition prevAt :: "char option \<Rightarrow> string \<Rightarrow> nat \<Rightarrow> char option" where
  "prevAt prev s k = (if k = 0 \<or> length s < k then prev else Some (s ! (k - 1)))"

definition isWordOpt :: "char option \<Rightarrow> bool" where
  "isWordOpt c = (case c of None \<Rightarrow> False | Some x \<Rightarrow> isWordChar x)"

text \<open>The numbers of repetitions a greedy class may take at the head of \<open>s\<close>, longest first.\<close>

definition repCounts :: "(char \<Rightarrow> bool) \<Rightarrow> nat \<Rightarrow> nat option \<Rightarrow> string \<Rightarrow> nat list" where
  "repCounts cls lo hi s =
     (let avail = length (takeWhile cls s);
          top = (case hi of None \<Rightarrow> avail | Some h \<Rightarrow> min h avail)
      in rev [lo ..< Suc top])"

text \<open>
  The backtracking matcher: \<open>rxMatch items prev s cap\<close> matches the items at the head
  of \<open>s\<close>, where \<open>prev\<close> is the character before \<open>s\<close> and \<open>cap\<close> the capture so far,
  and returns what follows the match and the capture of group 1 for the first way to
  match in the order a backtracking engine tries them.
\<close>

fun rxMatch :: "rx list \<Rightarrow> char option \<Rightarrow> string \<Rightarrow> string option \<Rightarrow> (string \<times> string option) option" where
  "rxMatch [] prev s cap = Some (s, cap)"
| "rxMatch (Bnd # r) prev s cap =
     (if isWordOpt prev \<noteq> isWordOpt (case s of [] \<Rightarrow> None | c # _ \<Rightarrow> Some c)
      then rxMatch r prev s cap else None)"
| "rxMatch (Start # r) prev s cap = (if prev = None then rxMatch r prev s cap else None)"
| "rxMatch (Lit l # r) prev s cap =
     (if ciPrefix l s then rxMatch r (prevAt prev s (length l)) (drop (length l) s) cap else None)"
| "rxMatch (Rep cls lo hi # r) prev s cap =
     firstSome (map (\<lambda>k. rxMatch r (prevAt prev s k) (drop k s) cap) (repCounts cls lo hi s))"
| "rxMatch (Cap cls lo hi # r) prev s cap =
     firstSome (map (\<lambda>k. rxMatch r (prevAt prev s k) (drop k s) (Some (take k s)))
       (repCounts cls lo hi s))"
| "rxMatch (OptAlt ls # r) prev s cap =
     firstSome (map (\<lambda>l. if ciPrefix l s
                          then rxMatch r (prevAt prev s (length l)) (drop (length l) s) cap
                          else None) ls
                @ [rxMatch r prev s cap])"

text \<open>
  \<open>text.match(pattern)\<close> for a pattern without the flag \<open>g\<close>: the match at the leftmost
  position that has one, as \<open>match[0]\<close> and \<open>match[1]\<close>.
\<close>

record rxResult =
  whole :: string
  group1 :: "string option"

fun rxSearch :: "rx list \<Rightarrow> char option \<Rightarrow> string \<Rightarrow> rxResult option" where
  "rxSearch re prev [] =
     (case rxMatch re prev [] None of
        Some (rest, cap) \<Rightarrow> Some \<lparr> whole = [], group1 = cap \<rparr>
      | None \<Rightarrow> None)"
| "rxSearch re prev (c # cs) =
     (case rxMatch re prev (c # cs) None of
        Some (rest, cap) \<Rightarrow>
          Some \<lparr> whole = take (length (c # cs) - length rest) (c # cs), group1 = cap \<rparr>
      | None \<Rightarrow> rxSearch re (Some c) cs)"

definition rxExec :: "rx list \<Rightarrow> string \<Rightarrow> rxResult option" where
  "rxExec re s = rxSearch re None s"

definition rxTest :: "rx list \<Rightarrow> string \<Rightarrow> bool" where
  "rxTest re s = (rxExec re s \<noteq> None)"

subsection \<open>detectHomework\<close>

definition homeworkPatterns :: "rx list list" where
  "homeworkPatterns =
     [[Bnd, Lit ''hw'', Rep isSpace 0 None, Cap isDigit 1 (Some 2), Bnd],
      [Bnd, Lit ''hw'',
       Rep (\<lambda>c. c = CHR '':'' \<or> isSpace c \<or> c = CHR ''_'' \<or> c = CHR ''-'') 0 None,
       Cap isDigit 1 (Some 2), Bnd],
      [Bnd, Lit ''homework'', Rep isSpace 0 None, Cap isDigit 1 (Some 2), Bnd],
      [Bnd, Lit ''assignment'', Rep isSpace 0 None, Cap isDigit 1 (Some 2), Bnd],
      [Bnd, Lit ''proj'', OptAlt [''ect''], Rep isSpace 0 None, Cap isDigit 1 (Some 2), Bnd]]"

text \<open>
  The loop over the patterns: the first pattern with a match whose group 1 is a
  non-empty string decides.
\<close>

fun firstCapture :: "rx list list \<Rightarrow> string \<Rightarrow> string option" where
  "firstCapture [] s = None"
| "firstCapture (pattern # patterns) s =
     (case rxExec pattern s of
        Some m \<Rightarrow> (if truthy (group1 m) then group1 m else firstCapture patterns s)
      | None \<Rightarrow> firstCapture patterns s)"

definition detectHomework :: "string \<Rightarrow> string option" where
  "detectHomework input = firstCapture homeworkPatterns (toLowerCase input)"

subsection \<open>detectModels\<close>

definition dashOrSpace :: "char \<Rightarrow> bool" where
  "dashOrSpace c = (c = CHR ''-'' \<or> isSpace c)"

definition dictionary :: "(string \<times> rx list list) list" where
  "dictionary =
     [(''gpt-4o'', [[Bnd, Lit ''gpt'', Rep dashOrSpace 0 (Some 1), Lit ''4o'', Bnd]]),
      (''gpt-4o-mini'',
         [[Bnd, Lit ''gpt'', Rep dashOrSpace 0 (Some 1), Lit ''4o'', Rep dashOrSpace 0 (Some 1),
           Lit ''mini'', Bnd]]),
      (''o1'',
         [[Bnd, Lit ''o1'', Bnd],
          [Bnd, Lit ''o1'', Rep dashOrSpace 1 (Some 1), Lit ''preview'', Bnd],
          [Bnd, Lit ''o1'', Rep dashOrSpace 1 (Some 1), Lit ''mini'', Bnd]]),
      (''claude'', [[Bnd, Lit ''claude'', Bnd], [Bnd, Lit ''anthropic'', Bnd]]),
      (''gemini'', [[Bnd, Lit ''gemini'', Bnd]]),
      (''llama'',
         [[Bnd, Lit ''llama'', Bnd],
          [Bnd, Lit ''meta'', Rep dashOrSpace 0 (Some 1), Lit ''llama'', Bnd]]),
      (''mistral'', [[Bnd, Lit ''mistral'', Bnd]]),
      (''deepseek'', [[Bnd, Lit ''deepseek'', Bnd]]),
      (''qwen'', [[Bnd, Lit ''qwen'', Bnd]]),
      (''grok'', [[Bnd, Lit ''grok'', Bnd]])]"

text \<open>
  The class \<open>[a-z0-9\.\-\_]\<close> of the generic capture, under the flag \<open>i\<close>: the capital
  letters match as well.
\<close>

definition modelNameChar :: "char \<Rightarrow> bool" where
  "modelNameChar c =
     (let n = (of_char c :: nat)
      in (97 \<le> n \<and> n \<le> 122) \<or> (65 \<le> n \<and> n \<le> 90) \<or> (48 \<le> n \<and> n \<le> 57) \<or>
         c = CHR ''.'' \<or> c = CHR ''-'' \<or> c = CHR ''_'')"

definition modelLinePattern :: "rx list" where
  "modelLinePattern =
     [Bnd, Lit ''model'', Rep isSpace 0 None, Rep (\<lambda>c. c = CHR '':'' \<or> c = CHR ''='') 1 (Some 1),
      Rep isSpace 0 None, Cap modelNameChar 1 None, Bnd]"

text \<open>\<open>hits.add(key)\<close> on a \<open>Set\<close>, which keeps the order of insertion.\<close>

definition setAdd :: "'a list \<Rightarrow> 'a \<Rightarrow> 'a list" where
  "setAdd hits key = (if key \<in> set hits then hits else hits @ [key])"

definition detectModels :: "string \<Rightarrow> string list" where
  "detectModels input =
     (let text_v = toLowerCase input;
          hits = fold (\<lambda>entry hits.
                    if list_ex (\<lambda>pattern. rxTest pattern text_v) (snd entry)
                    then setAdd hits (fst entry) else hits) dictionary [];
          modelLine = rxExec modelLinePattern text_v
      in case modelLine of
           Some m \<Rightarrow> (if truthy (group1 m) then setAdd hits (the (group1 m)) else hits)
         | None \<Rightarrow> hits)"

subsection \<open>groupThreads\<close>

text \<open>
  A \<open>Map<string, Post[]>\<close> is an association list with distinct keys, in the order of
  insertion: \<open>map.get(key)\<close> is \<open>map_of\<close>, \<open>map.set(key, v)\<close> is \<open>AList.update\<close>
  (in place when the key is there, at the end when it is not) and \<open>map.delete(key)\<close>
  is \<open>AList.delete\<close>. \<open>existing.push(value)\<close> changes the array the map holds.
\<close>

type_synonym 'a groups = "(string \<times> 'a post_scheme list) list"

definition pushMapUniqueById :: "'a groups \<Rightarrow> string \<Rightarrow> 'a post_scheme \<Rightarrow> 'a groups" where
  "pushMapUniqueById m key v =
     (case map_of m key of
        None \<Rightarrow> AList.update key [v] m
      | Some existing \<Rightarrow>
          (if list_ex (\<lambda>item. id' item = id' v) existing then m
           else AList.update key (existing @ [v]) m))"

text \<open>\<open>s.split(":")\<close>, and \<open>parts[1]\<close>, which is \<open>undefined\<close> when there is one part.\<close>

fun splitOn :: "char \<Rightarrow> string \<Rightarrow> string list" where
  "splitOn sep [] = [[]]"
| "splitOn sep (c # cs) =
     (if c = sep then [] # splitOn sep cs
      else (case splitOn sep cs of [] \<Rightarrow> [[c]] | part # parts \<Rightarrow> (c # part) # parts))"

definition second :: "string list \<Rightarrow> string option" where
  "second parts = (case parts of a # b # _ \<Rightarrow> Some b | _ \<Rightarrow> None)"

definition join :: "string \<Rightarrow> string list \<Rightarrow> string" where
  "join sep parts = (case parts of [] \<Rightarrow> [] | p # ps \<Rightarrow> p @ concat (map (\<lambda>q. sep @ q) ps))"

definition tagsOf :: "'a post_scheme \<Rightarrow> string list" where
  "tagsOf thread = (case tags thread of None \<Rightarrow> [] | Some ts \<Rightarrow> ts)"

definition textOf :: "'a post_scheme \<Rightarrow> string" where
  "textOf thread = title thread @ [LF] @ orEmpty (body thread) @ [LF] @ join '' '' (tagsOf thread)"

text \<open>
  The value \<open>hw\<close> of the loop body: from the first tag whose lower case starts with
  \<open>hw:\<close> when there is one, from \<open>detectHomework\<close> otherwise.
\<close>

definition homeworkOf :: "'a post_scheme \<Rightarrow> string option" where
  "homeworkOf thread =
     (case List.find (\<lambda>tag. prefix ''hw:'' (toLowerCase tag)) (tagsOf thread) of
        Some hwFromTags \<Rightarrow> map_option trim (second (splitOn (CHR '':'') hwFromTags))
      | None \<Rightarrow> detectHomework (textOf thread))"

text \<open>The model names the loop body pushes the thread under, in order.\<close>

definition modelsOf :: "'a post_scheme \<Rightarrow> string list" where
  "modelsOf thread =
     (case List.find (\<lambda>tag. prefix ''base_model:'' (toLowerCase tag)) (tagsOf thread) of
        Some baseModelFromTags \<Rightarrow>
          (let base = map_option trim (second (splitOn (CHR '':'') baseModelFromTags))
           in if truthy base then [the base] else [])
      | None \<Rightarrow> detectModels (textOf thread))"

fun groupLoop :: "'a groups \<Rightarrow> 'a groups \<Rightarrow> 'a post_scheme list \<Rightarrow> 'a groups \<times> 'a groups" where
  "groupLoop homeworkGroups modelGroups [] = (homeworkGroups, modelGroups)"
| "groupLoop homeworkGroups modelGroups (thread # rest) =
     groupLoop
       (let hw = homeworkOf thread
        in if truthy hw then pushMapUniqueById homeworkGroups (''hw:'' @ the hw) thread
           else homeworkGroups)
       (fold (\<lambda>model_v m. pushMapUniqueById m (''model:'' @ model_v) thread)
          (modelsOf thread) modelGroups)
       rest"

text \<open>
  The loop after the scan deletes every model group of fewer than two posts; deleting
  the current entry of a \<open>Map\<close> while iterating over it is allowed and skips nothing.
\<close>

definition dropSmall :: "'a groups \<Rightarrow> 'a groups" where
  "dropSmall modelGroups =
     fold (\<lambda>entry m. if length (snd entry) < 2 then AList.delete (fst entry) m else m)
       modelGroups modelGroups"

record 'a grouped =
  homeworkGroups :: "'a groups"
  modelGroups :: "'a groups"

definition groupThreads :: "'a post_scheme list \<Rightarrow> 'a grouped" where
  "groupThreads posts =
     (case groupLoop [] [] posts of
        (hg, mg) \<Rightarrow> \<lparr> homeworkGroups = hg, modelGroups = dropSmall mg \<rparr>)"

subsection \<open>The loop of groupThreads, one map at a time\<close>

text \<open>
  The loop body pushes the thread under a list of keys into each of the two maps: at
  most one homework key, and the model keys. \<open>pushAll\<close> is the scan of one map.
\<close>

definition homeworkKeys :: "'a post_scheme \<Rightarrow> string list" where
  "homeworkKeys thread =
     (if truthy (homeworkOf thread) then [''hw:'' @ the (homeworkOf thread)] else [])"

definition modelKeys :: "'a post_scheme \<Rightarrow> string list" where
  "modelKeys thread = map (\<lambda>model_v. ''model:'' @ model_v) (modelsOf thread)"

definition pushKeys :: "string list \<Rightarrow> 'a post_scheme \<Rightarrow> 'a groups \<Rightarrow> 'a groups" where
  "pushKeys ks thread m = fold (\<lambda>k m'. pushMapUniqueById m' k thread) ks m"

definition pushAll :: "('a post_scheme \<Rightarrow> string list) \<Rightarrow> 'a post_scheme list \<Rightarrow> 'a groups \<Rightarrow> 'a groups" where
  "pushAll keysOf posts_v m = fold (\<lambda>thread m'. pushKeys (keysOf thread) thread m') posts_v m"


subsection \<open>Posts of the scenarios\<close>

text \<open>A post with an id, a title and tags, and no other field.\<close>

definition examplePost :: "string \<Rightarrow> string \<Rightarrow> string list \<Rightarrow> post" where
  "examplePost i t tgs =
     \<lparr> id' = i, title = t, body = None, author = None, url = None, tags = Some tgs,
       type' = None \<rparr>"

section \<open>Remote summarization (ai.ts)\<close>

subsection \<open>Numbers\<close>

text \<open>
  A JavaScript number: a finite double (a real number), \<open>NaN\<close> and the two
  infinities. \<open>Number(s)\<close> on a string and the product of two doubles, which is
  rounded to a double, are functions of the language, not of this repository: they are
  the parameters \<open>number\<close> and \<open>times\<close> of the definitions below. \<open>Math.max\<close> and
  \<open>Math.min\<close> do not round.
\<close>

datatype jsnum = Num real | NaN | PosInf | NegInf

fun jsMax :: "jsnum \<Rightarrow> jsnum \<Rightarrow> jsnum" where
  "jsMax NaN b = NaN"
| "jsMax a NaN = NaN"
| "jsMax PosInf b = PosInf"
| "jsMax a PosInf = PosInf"
| "jsMax NegInf b = b"
| "jsMax a NegInf = a"
| "jsMax (Num a) (Num b) = Num (max a b)"

text \<open>
  \<open>x * k\<close> for a finite \<open>k\<close>, with \<open>t\<close> the rounded product of two finite doubles
  whose product is in the range of the doubles. A product of magnitude
  \<open>2^1024 - 2^970\<close> or more is rounded to an infinity.
\<close>

definition overflowAt :: real where
  "overflowAt = 2 ^ 1024 - 2 ^ 970"

fun jsTimes :: "(real \<Rightarrow> real \<Rightarrow> real) \<Rightarrow> jsnum \<Rightarrow> real \<Rightarrow> jsnum" where
  "jsTimes t (Num a) k =
     (if overflowAt \<le> a * k then PosInf else if a * k \<le> - overflowAt then NegInf
      else Num (t a k))"
| "jsTimes t NaN k = NaN"
| "jsTimes t PosInf k = (if k > 0 then PosInf else if k < 0 then NegInf else NaN)"
| "jsTimes t NegInf k = (if k > 0 then NegInf else if k < 0 then PosInf else NaN)"

text \<open>
  \<open>attempt <= maxAttempts\<close>, and \<open>attempt += 1\<close>: the counter is a double, exact up to
  2^53, where adding 1 rounds back to 2^53.
\<close>

definition incr :: "nat \<Rightarrow> nat" where
  "incr attempt = (if attempt < 2 ^ 53 then Suc attempt else attempt)"

fun leNum :: "nat \<Rightarrow> jsnum \<Rightarrow> bool" where
  "leNum n (Num m) = (real n \<le> m)"
| "leNum n NaN = False"
| "leNum n PosInf = True"
| "leNum n NegInf = False"

text \<open>The decimal digits of a natural number, for the status in an error message.\<close>

fun showNat :: "nat \<Rightarrow> string" where
  "showNat n = (if n < 10 then [char_of (48 + n)] else showNat (n div 10) @ [char_of (48 + n mod 10)])"

declare showNat.simps [simp del]

subsection \<open>The results\<close>

record cluster =
  clusterTitle :: string
  description :: string
  clusterTags :: "string list"
  clusterSize :: jsnum

datatype mode = Llm | Heuristic

record aiPerspective =
  summary :: string
  clusters :: "cluster list"
  perspectiveModelUsed :: string
  perspectiveMode :: mode

record groupPostSummary =
  summaryId :: string
  summaryTitle :: string
  takeaway :: string

record groupSummary =
  key :: string
  label :: string
  count :: nat
  overview :: string
  posts :: "groupPostSummary list"

subsection \<open>The world\<close>

text \<open>
  What the process-wide cache holds: \<open>setCache\<close> stores an \<open>AIPerspective\<close> or a
  \<open>GroupSummary\<close>, and \<open>getCache<T>\<close> returns what is stored under the key, cast to
  \<open>T\<close> without a check.
\<close>

datatype cacheValue = Overview aiPerspective | Group groupSummary

text \<open>
  The state the remote path reads and changes: the number of \<open>fetch\<close> calls issued so
  far, the number of \<open>Math.random\<close> calls made so far, the arguments of the \<open>sleep\<close>
  calls so far, and \<open>globalThis.__ai_cache\<close>.
\<close>

record world =
  fetches :: nat
  draws :: nat
  slept :: "jsnum list"
  cache :: "string \<rightharpoonup> cacheValue"

text \<open>
  What \<open>fetch\<close> gives: it rejects with an error (\<open>NetworkError\<close>), or resolves to a
  response, of which the code reads the status, the header \<open>retry-after\<close>
  (\<open>headers.get\<close> is \<open>null\<close> without one), the outcome of \<open>response.json()\<close> and what
  \<open>safeReadText\<close> returns (the empty string when \<open>response.text()\<close> throws). Of the
  JSON body the code reads \<open>choices?.[0]?.message?.content\<close> and \<open>model\<close>;
  \<open>Inl\<close> is the message of the error thrown while the body is read, by
  \<open>response.json()\<close> or, when the body is \<open>null\<close>, by the access to \<open>choices\<close>. The
  content and the model of a reply are strings or absent, as the API has them.
\<close>

record jsonReply =
  replyContent :: "string option"
  replyModel :: "string option"

record httpResponse =
  status :: nat
  retryAfter :: "string option"
  jsonBody :: "string + jsonReply"
  textBody :: string

datatype fetchOutcome = NetworkError string | Response httpResponse

text \<open>
  The parameters of the remote path, fixed for a run: \<open>respond n\<close> is the outcome of the
  \<open>n\<close>-th \<open>fetch\<close> of the process, \<open>random n\<close> the value of the \<open>n\<close>-th
  \<open>Math.random()\<close>, \<open>number\<close> is \<open>Number\<close> on strings, \<open>times\<close> the product of two
  finite doubles rounded to a double, \<open>parseJson\<close> is \<open>JSON.parse\<close> (\<open>None\<close> when it throws),
  \<open>stringify\<close> is \<open>JSON.stringify\<close> and \<open>sha256\<close> is the hex digest of
  \<open>crypto.createHash("sha256")\<close>. The last two fields are the environment variables
  \<open>OPENAI_MODEL\<close> and \<open>AI_OPENAI_MAX_RETRIES\<close>. A parsed object holds each name once
  (\<open>JSON.parse\<close> keeps the last value of a repeated name).
\<close>

datatype json =
    JNull
  | JBool bool
  | JNum string
  | JStr string
  | JArr "json list"
  | JObj "(string \<times> json) list"

record env =
  respond :: "nat \<Rightarrow> fetchOutcome"
  random :: "nat \<Rightarrow> real"
  number :: "string \<Rightarrow> jsnum"
  times :: "real \<Rightarrow> real \<Rightarrow> real"
  parseJson :: "string \<Rightarrow> json option"
  stringify :: "json \<Rightarrow> string"
  sha256 :: "string \<Rightarrow> string"
  OPENAI_MODEL :: "string option"
  AI_OPENAI_MAX_RETRIES :: "string option"

subsection \<open>openaiChatCompletion\<close>

text \<open>\<open>response.ok\<close>: the status is in the range 200 to 299.\<close>

definition ok :: "httpResponse \<Rightarrow> bool" where
  "ok r = (200 \<le> status r \<and> status r \<le> 299)"

text \<open>
  \<open>Math.floor(Math.random() * maxMs)\<close>, with the value of \<open>Math.random()\<close> as \<open>r\<close>:
  the floor of the rounded product.
\<close>

definition jitter :: "env \<Rightarrow> nat \<Rightarrow> real \<Rightarrow> real" where
  "jitter e maxMs r = real_of_int \<lfloor>times e r (real maxMs)\<rfloor>"

definition retryable :: "nat \<Rightarrow> bool" where
  "retryable st = (st = 429 \<or> (500 \<le> st \<and> st \<le> 599))"

text \<open>
  \<open>Math.min(30_000, 600 * 2 ** (attempt - 1) + jitter(250))\<close>. With a jitter from 0 to
  249 the sum is a whole number below 2^53 for the first six attempts, which a double
  holds exactly, and at least 30000 from the seventh attempt on, in doubles (where it may
  be \<open>Infinity\<close>) as in the reals: the minimum is the same.
\<close>

definition backoffMs :: "env \<Rightarrow> nat \<Rightarrow> real \<Rightarrow> real" where
  "backoffMs e attempt r = min 30000 (600 * 2 ^ (attempt - 1) + jitter e 250 r)"

text \<open>\<open>retryAfter ? Number(retryAfter) * 1000 : 0\<close>\<close>

definition retryAfterMs :: "env \<Rightarrow> string option \<Rightarrow> jsnum" where
  "retryAfterMs e h = (if truthy h then jsTimes (times e) (number e (the h)) 1000 else Num 0)"

record completion =
  content :: string
  modelUsed :: string

text \<open>
  The \<open>for\<close> loop over \<open>attempt\<close>. A \<open>throw\<close> is the result \<open>Inl\<close> with the message
  of the error. The loop need not end (\<open>maxAttempts\<close> may be infinite, or beyond
  what the counter reaches): the result \<open>None\<close> is a run that never returns.
\<close>

partial_function (option) attemptLoop ::
  "env \<Rightarrow> string \<Rightarrow> jsnum \<Rightarrow> nat \<Rightarrow> world \<Rightarrow> ((string + completion) \<times> world) option" where
  "attemptLoop e modelName maxAttempts attempt w =
     (if leNum attempt maxAttempts then
        (case respond e (fetches w) of
           NetworkError message \<Rightarrow> Some (Inl message, w\<lparr>fetches := Suc (fetches w)\<rparr>)
         | Response r \<Rightarrow>
             (if ok r then
                (case jsonBody r of
                   Inl message \<Rightarrow> Some (Inl message, w\<lparr>fetches := Suc (fetches w)\<rparr>)
                 | Inr reply \<Rightarrow>
                     (if \<not> truthy (replyContent reply)
                      then Some (Inl ''OpenAI response missing content'',
                                 w\<lparr>fetches := Suc (fetches w)\<rparr>)
                      else Some (Inr \<lparr> content = the (replyContent reply),
                                        modelUsed = (case replyModel reply of
                                                       None \<Rightarrow> modelName | Some m \<Rightarrow> m) \<rparr>,
                                 w\<lparr>fetches := Suc (fetches w)\<rparr>)))
              else if retryable (status r) then
                attemptLoop e modelName maxAttempts (incr attempt)
                  (w\<lparr>fetches := Suc (fetches w), draws := Suc (draws w),
                     slept := slept w @
                       [jsMax (retryAfterMs e (retryAfter r))
                          (Num (backoffMs e attempt (random e (draws w))))]\<rparr>)
              else Some (Inl (''OpenAI responded with '' @ showNat (status r) @
                               (if textBody r \<noteq> [] then '': '' @ take 140 (textBody r) else [])),
                         w\<lparr>fetches := Suc (fetches w)\<rparr>)))
      else Some (Inl ''OpenAI retries exhausted (429/5xx).'', w))"

text \<open>\<open>Math.max(1, Number(process.env.AI_OPENAI_MAX_RETRIES ?? 5))\<close>\<close>

definition maxAttemptsOf :: "env \<Rightarrow> jsnum" where
  "maxAttemptsOf e =
     jsMax (Num 1) (case AI_OPENAI_MAX_RETRIES e of None \<Rightarrow> Num 5 | Some s \<Rightarrow> number e s)"

definition openaiChatCompletion ::
  "env \<Rightarrow> string \<Rightarrow> world \<Rightarrow> ((string + completion) \<times> world) option" where
  "openaiChatCompletion e modelName w = attemptLoop e modelName (maxAttemptsOf e) 1 w"

subsection \<open>The cache\<close>

definition hashKey :: "env \<Rightarrow> json \<Rightarrow> string" where
  "hashKey e input = sha256 e (stringify e input)"

definition getCache :: "world \<Rightarrow> string \<Rightarrow> cacheValue option" where
  "getCache w k = cache w k"

definition setCache :: "world \<Rightarrow> string \<Rightarrow> cacheValue \<Rightarrow> world" where
  "setCache w k v = w\<lparr>cache := (cache w)(k \<mapsto> v)\<rparr>"

text \<open>\<open>process.env.OPENAI_MODEL ?? "gpt-4o-mini"\<close>\<close>

definition modelOf :: "env \<Rightarrow> string" where
  "modelOf e = (case OPENAI_MODEL e of None \<Rightarrow> ''gpt-4o-mini'' | Some m \<Rightarrow> m)"

subsection \<open>safeParseJsonObject\<close>

text \<open>\<open>input.indexOf("{")\<close> and \<open>input.lastIndexOf("}")\<close>; \<open>None\<close> is the result -1.\<close>

fun indexOf :: "char \<Rightarrow> string \<Rightarrow> nat option" where
  "indexOf c [] = None"
| "indexOf c (x # xs) = (if x = c then Some 0 else map_option Suc (indexOf c xs))"

definition lastIndexOf :: "char \<Rightarrow> string \<Rightarrow> nat option" where
  "lastIndexOf c s = map_option (\<lambda>i. length s - 1 - i) (indexOf c (rev s))"

definition slice :: "string \<Rightarrow> nat \<Rightarrow> nat \<Rightarrow> string" where
  "slice s from to = take (to - from) (drop from s)"

definition safeParseJsonObject :: "env \<Rightarrow> string \<Rightarrow> json option" where
  "safeParseJsonObject e input =
     (case (indexOf (CHR 0x7B) input, lastIndexOf (CHR 0x7D) input) of
        (Some start, Some end_v) \<Rightarrow>
          (if end_v \<le> start then None else parseJson e (slice input start (end_v + 1)))
      | _ \<Rightarrow> None)"

subsection \<open>summarizeGroup\<close>

text \<open>
  Reading a property of a parsed value: an object gives the value under the name, and
  \<open>None\<close> stands for \<open>undefined\<close>; no other value has one of the properties read here
  (\<open>overview\<close>, \<open>posts\<close>, \<open>id\<close>, \<open>title\<close>, \<open>takeaway\<close>).
\<close>

fun property :: "json \<Rightarrow> string \<Rightarrow> json option" where
  "property (JObj kvs) k = map_of kvs k"
| "property v k = None"

text \<open>
  \<open>String(v)\<close>; \<open>None\<close> is the \<open>TypeError\<close> it throws. A number is held as the text
  \<open>String\<close> gives for it. An array is its elements joined by commas, \<open>null\<close> elements
  as empty strings. An object is converted by its \<open>toString\<close>: the one of
  \<open>Object.prototype\<close> gives \<open>[object Object]\<close>, but an own property \<open>toString\<close>, which
  in a parsed value is never a function, hides it, and then neither it nor \<open>valueOf\<close>
  gives a primitive value: \<open>TypeError: Cannot convert object to primitive value\<close>.
\<close>

definition typeErrorMessage :: string where
  "typeErrorMessage = ''Cannot convert object to primitive value''"

fun jsString :: "json \<Rightarrow> string option" where
  "jsString JNull = Some ''null''"
| "jsString (JBool b) = Some (if b then ''true'' else ''false'')"
| "jsString (JNum n) = Some n"
| "jsString (JStr s) = Some s"
| "jsString (JArr vs) =
     map_option (join '','') (those (map (\<lambda>v. if v = JNull then Some [] else jsString v) vs))"
| "jsString (JObj kvs) =
     (if map_of kvs ''toString'' \<noteq> None then None else Some ''[object Object]'')"

text \<open>\<open>typeof v === "string" ? v : ""\<close> for a property \<open>v\<close> that may be \<open>undefined\<close>.\<close>

fun stringOrEmpty :: "json option \<Rightarrow> string" where
  "stringOrEmpty (Some (JStr s)) = s"
| "stringOrEmpty v = []"

text \<open>
  The function mapped over \<open>postsRaw\<close>; \<open>record.id ?? ""\<close> replaces \<open>null\<close> as well.
  It throws when \<open>String\<close> does: the result is then \<open>None\<close>.
\<close>

definition toPostSummary :: "json \<Rightarrow> groupPostSummary option" where
  "toPostSummary p =
     map_option
       (\<lambda>i. \<lparr> summaryId = i, summaryTitle = stringOrEmpty (property p ''title''),
               takeaway = stringOrEmpty (property p ''takeaway'') \<rparr>)
       (case property p ''id'' of
          None \<Rightarrow> Some [] | Some JNull \<Rightarrow> Some [] | Some v \<Rightarrow> jsString v)"

text \<open>
  The items of the sample sent to the model: \<open>id\<close>, \<open>title\<close>, the first 700
  characters of the body, the tags, the author and the type, each absent one replaced by
  an empty value.
\<close>

record sampleItem =
  sampleId :: string
  sampleTitle :: string
  sampleBody :: string
  sampleTags :: "string list"
  sampleAuthor :: string
  sampleType :: string

definition toSample :: "'a post_scheme \<Rightarrow> sampleItem" where
  "toSample thread =
     \<lparr> sampleId = id' thread, sampleTitle = title thread,
       sampleBody = take 700 (orEmpty (body thread)),
       sampleTags = tagsOf thread,
       sampleAuthor = orEmpty (author thread),
       sampleType = orEmpty (type' thread) \<rparr>"

definition sampleJson :: "sampleItem \<Rightarrow> json" where
  "sampleJson s =
     JObj [(''id'', JStr (sampleId s)), (''title'', JStr (sampleTitle s)),
           (''body'', JStr (sampleBody s)), (''tags'', JArr (map JStr (sampleTags s))),
           (''author'', JStr (sampleAuthor s)), (''type'', JStr (sampleType s))]"

text \<open>The entry patched in for a thread of the sample the model left out.\<close>

definition patchFor :: "sampleItem \<Rightarrow> groupPostSummary" where
  "patchFor thread =
     \<lparr> summaryId = sampleId thread, summaryTitle = sampleTitle thread,
       takeaway = take 120 (if sampleBody thread \<noteq> [] then sampleBody thread else ''No body.'') \<rparr>"

definition validSummary :: "groupPostSummary \<Rightarrow> bool" where
  "validSummary p = (summaryId p \<noteq> [] \<and> summaryTitle p \<noteq> [] \<and> takeaway p \<noteq> [])"

text \<open>
  What \<open>summarizeGroup\<close> makes of the content the model returned: \<open>overview\<close>,
  \<open>postsRaw\<close>, \<open>posts\<close>, \<open>seen\<close>, \<open>patched\<close> and \<open>result\<close>. \<open>postsRaw.map\<close>
  throws when the function mapped throws on an element (\<open>those\<close> is then \<open>None\<close>), and
  so does \<open>summarizeGroup\<close>: the result \<open>None\<close>.
\<close>

definition decodeGroup ::
  "env \<Rightarrow> string \<Rightarrow> string \<Rightarrow> nat \<Rightarrow> sampleItem list \<Rightarrow> string \<Rightarrow> groupSummary option" where
  "decodeGroup e label_v key_v n sample content_v =
     (let parsed = safeParseJsonObject e content_v;
          overview_v = stringOrEmpty (case parsed of None \<Rightarrow> None | Some v \<Rightarrow> property v ''overview'');
          postsRaw = (case (case parsed of None \<Rightarrow> None | Some v \<Rightarrow> property v ''posts'') of
                        Some (JArr ps) \<Rightarrow> ps | _ \<Rightarrow> [])
      in case those (map toPostSummary postsRaw) of
           None \<Rightarrow> None
         | Some mapped \<Rightarrow>
             (let posts_v = filter validSummary mapped;
                  seen = set (map summaryId posts_v);
                  patched = posts_v @ map patchFor (filter (\<lambda>thread. sampleId thread \<notin> seen) sample)
              in Some \<lparr> key = key_v, label = label_v, count = n,
                        overview = (if overview_v \<noteq> [] then overview_v
                                    else ''AI summary unavailable for '' @ label_v @ ''.''),
                        posts = take (length sample) patched \<rparr>))"

definition groupCacheKey :: "env \<Rightarrow> string \<Rightarrow> sampleItem list \<Rightarrow> string" where
  "groupCacheKey e key_v sample =
     hashKey e (JObj [(''kind'', JStr ''group''), (''model'', JStr (modelOf e)),
                      (''key'', JStr key_v), (''sample'', JArr (map sampleJson sample))])"

text \<open>
  \<open>summarizeGroup(label, key, items)\<close>. The result is \<open>None\<close> when the call never
  returns, \<open>Inl\<close> the message of the error thrown, \<open>Inr\<close> the value returned: the
  cached value as it is, or the new \<open>GroupSummary\<close>.
\<close>

definition summarizeGroup ::
  "env \<Rightarrow> string \<Rightarrow> string \<Rightarrow> 'a post_scheme list \<Rightarrow> world \<Rightarrow> ((string + cacheValue) \<times> world) option" where
  "summarizeGroup e label_v key_v items w =
     (let sample = map toSample (take 28 items);
          cacheKey = groupCacheKey e key_v sample
      in case getCache w cacheKey of
           Some cached \<Rightarrow> Some (Inr cached, w)
         | None \<Rightarrow>
             (case openaiChatCompletion e (modelOf e) w of
                None \<Rightarrow> None
              | Some (Inl message, w1) \<Rightarrow> Some (Inl message, w1)
              | Some (Inr c, w1) \<Rightarrow>
                  (case decodeGroup e label_v key_v (length items) sample (content c) of
                     None \<Rightarrow> Some (Inl typeErrorMessage, w1)
                   | Some result \<Rightarrow>
                       Some (Inr (Group result), setCache w1 cacheKey (Group result)))))"

subsection \<open>extractClusters\<close>

text \<open>\<open>s.split(sep)\<close> for a non-empty separator; \<open>acc\<close> is the part being read.\<close>

fun splitStr :: "string \<Rightarrow> string \<Rightarrow> string \<Rightarrow> string list" where
  "splitStr sep acc [] = [acc]"
| "splitStr sep acc (c # cs) =
     (if sep \<noteq> [] \<and> prefix sep (c # cs)
      then acc # splitStr sep [] (drop (length sep) (c # cs))
      else splitStr sep (acc @ [c]) cs)"

text \<open>\<open>s.replace(pat, "")\<close> for a string \<open>pat\<close>: the first occurrence is removed.\<close>

fun removeFirst :: "string \<Rightarrow> string \<Rightarrow> string" where
  "removeFirst pat [] = []"
| "removeFirst pat (c # cs) =
     (if prefix pat (c # cs) then drop (length pat) (c # cs) else c # removeFirst pat cs)"

definition numberingPattern :: "rx list" where
  "numberingPattern =
     [Start, Rep isDigit 1 None, Rep (\<lambda>c. c = CHR ''.'' \<or> c = CHR 0x29) 1 (Some 1),
      Rep isSpace 0 None]"

definition sizePattern :: "rx list" where
  "sizePattern = [Cap isDigit 1 None, Rep isSpace 0 None, OptAlt [''posts'', ''threads'', ''items'']]"

text \<open>The body of the loop over the lines: the cluster of a line, if it has one.\<close>

definition lineCluster :: "env \<Rightarrow> string \<Rightarrow> cluster option" where
  "lineCluster e line =
     (let unnumbered = (case rxExec numberingPattern line of
                          None \<Rightarrow> line | Some m \<Rightarrow> drop (length (whole m)) line);
          parts = splitStr '' - '' [] unnumbered
      in case parts of
           title_v # rest # _ \<Rightarrow>
             (let sizeMatch = rxExec sizePattern rest
              in Some \<lparr> clusterTitle = trim title_v,
                        description = trim (case sizeMatch of
                                              None \<Rightarrow> rest | Some m \<Rightarrow> removeFirst (whole m) rest),
                        clusterTags = [],
                        clusterSize = (case sizeMatch of
                                         None \<Rightarrow> Num 0
                                       | Some m \<Rightarrow> number e (orEmpty (group1 m))) \<rparr>)
         | _ \<Rightarrow> None)"

definition extractClusters :: "env \<Rightarrow> string \<Rightarrow> cluster list" where
  "extractClusters e content_v =
     (let lines = filter (\<lambda>line. line \<noteq> []) (map trim (splitStr [LF] [] content_v));
          found = List.map_filter (lineCluster e) lines
      in take 5 (if found = []
                 then [\<lparr> clusterTitle = ''General activity'',
                         description = ''Threads span questions, announcements, and project chatter.'',
                         clusterTags = [],
                         clusterSize = Num (real (max 1 (length content_v mod 7))) \<rparr>]
                 else found))"

subsection \<open>callOpenAI\<close>

text \<open>
  The items of the sample of \<open>callOpenAI\<close>: \<open>type\<close> is \<open>thread.type\<close> as it is, and
  \<open>JSON.stringify\<close> leaves a property out that is \<open>undefined\<close>.
\<close>

definition overviewSampleJson :: "'a post_scheme \<Rightarrow> json" where
  "overviewSampleJson thread =
     JObj ([(''id'', JStr (id' thread)), (''title'', JStr (title thread)),
            (''body'', JStr (case body thread of None \<Rightarrow> [] | Some b \<Rightarrow> take 600 b)),
            (''tags'', JArr (map JStr (tagsOf thread)))]
           @ (case type' thread of None \<Rightarrow> [] | Some t \<Rightarrow> [(''type'', JStr t)]))"

definition overviewCacheKey :: "env \<Rightarrow> 'a post_scheme list \<Rightarrow> string" where
  "overviewCacheKey e posts_v =
     hashKey e (JObj [(''kind'', JStr ''overview''), (''model'', JStr (modelOf e)),
                      (''sample'', JArr (map overviewSampleJson (take 24 posts_v)))])"

definition callOpenAI ::
  "env \<Rightarrow> 'a post_scheme list \<Rightarrow> world \<Rightarrow> ((string + cacheValue) \<times> world) option" where
  "callOpenAI e posts_v w =
     (let cacheKey = overviewCacheKey e posts_v
      in case getCache w cacheKey of
           Some cached \<Rightarrow> Some (Inr cached, w)
         | None \<Rightarrow>
             (case openaiChatCompletion e (modelOf e) w of
                None \<Rightarrow> None
              | Some (Inl message, w1) \<Rightarrow> Some (Inl message, w1)
              | Some (Inr c, w1) \<Rightarrow>
                  (let result = \<lparr> summary = trim (join '' '' (take 3 (splitStr [LF] [] (content c)))),
                                  clusters = extractClusters e (content c),
                                  perspectiveModelUsed = modelUsed c,
                                  perspectiveMode = Llm \<rparr>
                   in Some (Inr (Overview result), setCache w1 cacheKey (Overview result)))))"

subsection \<open>The retry loop, attempt by attempt\<close>

text \<open>
  Names for the three things an attempt of \<open>openaiChatCompletion\<close> can do with the
  outcome of the \<open>n\<close>-th \<open>fetch\<close>. It is retried when the response is a 429 or a 5xx
  (such a status is never \<open>ok\<close>); the argument of the \<open>sleep\<close> that follows, also after
  the last attempt allowed, is \<open>napAt\<close>; and in every other case the attempt settles the call with \<open>settle\<close>, the
  value returned or the message of the error thrown.
\<close>

definition headerAt :: "env \<Rightarrow> nat \<Rightarrow> string option" where
  "headerAt e n = (case respond e n of NetworkError message \<Rightarrow> None | Response r \<Rightarrow> retryAfter r)"

definition retryableAt :: "env \<Rightarrow> nat \<Rightarrow> bool" where
  "retryableAt e n =
     (case respond e n of NetworkError message \<Rightarrow> False | Response r \<Rightarrow> retryable (status r))"

definition napAt :: "env \<Rightarrow> nat \<Rightarrow> nat \<Rightarrow> nat \<Rightarrow> jsnum" where
  "napAt e attempt n d =
     jsMax (retryAfterMs e (headerAt e n)) (Num (backoffMs e attempt (random e d)))"

definition settle :: "env \<Rightarrow> string \<Rightarrow> nat \<Rightarrow> string + completion" where
  "settle e modelName n =
     (case respond e n of
        NetworkError message \<Rightarrow> Inl message
      | Response r \<Rightarrow>
          (if ok r then
             (case jsonBody r of
                Inl message \<Rightarrow> Inl message
              | Inr reply \<Rightarrow>
                  (if \<not> truthy (replyContent reply) then Inl ''OpenAI response missing content''
                   else Inr \<lparr> content = the (replyContent reply),
                              modelUsed = (case replyModel reply of
                                             None \<Rightarrow> modelName | Some m \<Rightarrow> m) \<rparr>))
           else Inl (''OpenAI responded with '' @ showNat (status r) @
                     (if textBody r \<noteq> [] then '': '' @ take 140 (textBody r) else []))))"

text \<open>
  The arguments of the first \<open>k\<close> calls of \<open>sleep\<close> of a run that starts with attempt
  \<open>a\<close> when \<open>n\<close> calls of \<open>fetch\<close> and \<open>d\<close> calls of \<open>Math.random\<close> have been made;
  \<open>(incr ^^ i) a\<close> is the counter after \<open>i\<close> further rounds of the loop.
\<close>

definition naps :: "env \<Rightarrow> nat \<Rightarrow> nat \<Rightarrow> nat \<Rightarrow> nat \<Rightarrow> jsnum list" where
  "naps e a n d k = map (\<lambda>i. napAt e ((incr ^^ i) a) (n + i) (d + i)) [0 ..< k]"

subsection \<open>Names for the parts of summarizeGroup\<close>

text \<open>The variable \<open>sample\<close> of \<open>summarizeGroup\<close>.\<close>

definition sampleOf :: "'a post_scheme list \<Rightarrow> sampleItem list" where
  "sampleOf items = map toSample (take 28 items)"

subsection \<open>The first balanced span of the specification\<close>



subsection \<open>The output asked of the model\<close>

text \<open>
  These definitions follow the prompt of \<open>summarizeGroup\<close>, not its code: an entry
  \<open>{ "id": string, "title": string, "takeaway": string }\<close> of the array \<open>posts\<close>, and
  the summary it stands for.
\<close>

definition entryJson :: "string \<times> string \<times> string \<Rightarrow> json" where
  "entryJson x =
     (case x of (i, t, k) \<Rightarrow> JObj [(''id'', JStr i), (''title'', JStr t), (''takeaway'', JStr k)])"



subsection \<open>Worlds of the scenarios\<close>

text \<open>The state of a process that has called nothing yet.\<close>

definition world0 :: world where
  "world0 = \<lparr> fetches = 0, draws = 0, slept = [], cache = Map.empty \<rparr>"

text \<open>
  \<open>JSON.stringify\<close> on values whose strings need no escape, and the texts and the values
  \<open>JSON.parse\<close> reads them as in the scenarios: an empty object; an answer in the format
  asked for, with an entry for the post 1; the same answer followed by a second object,
  which is not a JSON text; and an answer whose entry has an object with a property
  \<open>toString\<close> as its id.
\<close>

fun showJson :: "json \<Rightarrow> string" where
  "showJson JNull = ''null''"
| "showJson (JBool b) = (if b then ''true'' else ''false'')"
| "showJson (JNum n) = n"
| "showJson (JStr s) = DQUOTE # s @ [DQUOTE]"
| "showJson (JArr vs) = ''['' @ join '','' (map showJson vs) @ '']''"
| "showJson (JObj kvs) =
     ''{'' @ join '','' (map (\<lambda>kv. DQUOTE # fst kv @ [DQUOTE] @ '':'' @ showJson (snd kv)) kvs) @ ''}''"

definition answerJson :: json where
  "answerJson = JObj [(''overview'', JStr ''o''), (''posts'', JArr [entryJson (''1'', ''T'', ''k'')])]"

definition answerText :: string where
  "answerText = showJson answerJson"

definition oddJson :: json where
  "oddJson =
     JObj [(''posts'', JArr [JObj [(''id'', JObj [(''toString'', JNull)]), (''title'', JStr ''T''),
                                   (''takeaway'', JStr ''k'')]])]"

definition oddText :: string where
  "oddText = showJson oddJson"

definition parseKnown :: "string \<Rightarrow> json option" where
  "parseKnown s =
     (if s = ''{}'' then Some (JObj [])
      else if s = answerText then Some answerJson
      else if s = oddText then Some oddJson
      else None)"

text \<open>
  An environment in which every request is answered by the response \<open>r\<close>,
  \<open>Math.random()\<close> is always 1/2, \<open>Number\<close> reads the strings \<open>1\<close>, \<open>2\<close> and \<open>3\<close>,
  no other string of the scenarios being a number, the products are exact, as they are on
  the numbers of the scenarios, and at most \<open>AI_OPENAI_MAX_RETRIES = 3\<close> attempts are
  made.
\<close>

definition constEnv :: "fetchOutcome \<Rightarrow> env" where
  "constEnv r =
     \<lparr> respond = (\<lambda>n. r), random = (\<lambda>n. 1 / 2),
       number = (\<lambda>s. if s = ''1'' then Num 1 else if s = ''2'' then Num 2
                     else if s = ''3'' then Num 3 else NaN),
       times = (\<lambda>a b. a * b),
       parseJson = parseKnown,
       stringify = showJson, sha256 = (\<lambda>s. s),
       OPENAI_MODEL = None, AI_OPENAI_MAX_RETRIES = Some ''3'' \<rparr>"



definition unavailable :: fetchOutcome where
  "unavailable = Response \<lparr> status = 503, retryAfter = None, jsonBody = Inl [], textBody = [] \<rparr>"

definition badRequest :: fetchOutcome where
  "badRequest = Response \<lparr> status = 400, retryAfter = None, jsonBody = Inl [], textBody = ''no'' \<rparr>"

definition answer :: "string \<Rightarrow> fetchOutcome" where
  "answer text =
     Response \<lparr> status = 200, retryAfter = None,
                jsonBody = Inr \<lparr> replyContent = Some text, replyModel = None \<rparr>,
                textBody = [] \<rparr>"

definition okReply :: fetchOutcome where
  "okReply = answer ''{}''"

text \<open>
  An environment in which the model answers \<open>{}\<close> and \<open>JSON.parse\<close> reads every text as
  an output with one entry, for a post \<open>x\<close> that is not in the sample.
\<close>

definition foreignEnv :: env where
  "foreignEnv =
     (constEnv okReply)
       \<lparr> parseJson := (\<lambda>s. Some (JObj [(''posts'', JArr [entryJson (''x'', ''t'', ''k'')])])) \<rparr>"


section \<open>Properties of parseCsv\<close>

lemma escapeQuotes_Nil: "escapeQuotes [] = []"
  by (simp add: escapeQuotes_def)

lemma escapeQuotes_Cons:
  "escapeQuotes (c # s) = (if c = DQUOTE then [DQUOTE, DQUOTE] else [c]) @ escapeQuotes s"
  by (simp add: escapeQuotes_def)

lemma escaped_content:
  "\<not> nextIs DQUOTE rest \<Longrightarrow>
   parseCsvLoop rows row field True (escapeQuotes s @ DQUOTE # rest) =
   parseCsvLoop rows row (field @ s) False rest"
proof (induction s arbitrary: field)
  case Nil
  then show ?case by (simp add: escapeQuotes_Nil)
next
  case (Cons c s)
  show ?case
    using Cons.IH [OF Cons.prems, of "field @ [c]"]
    by (cases "c = DQUOTE") (simp_all add: escapeQuotes_Cons)
qed

lemma quoted_field:
  "\<not> nextIs DQUOTE rest \<Longrightarrow>
   parseCsvLoop rows row field False (quoteField s @ rest) =
   parseCsvLoop rows row (field @ s) False rest"
  using escaped_content [of rest rows row field s] by (simp add: quoteField_def)

lemma quoted_line:
  "parseCsvLoop rows row field False (quotedLine (f # fs) @ LF # rest) =
   parseCsvLoop (pushRow rows (row @ (field @ f) # fs)) [] [] False rest"
proof (induction fs arbitrary: row field f)
  case Nil
  show ?case using quoted_field [of "LF # rest" rows row field f] by simp
next
  case (Cons g fs)
  have "parseCsvLoop rows row field False (quotedLine (f # g # fs) @ LF # rest) =
        parseCsvLoop rows row (field @ f) False (COMMA # quotedLine (g # fs) @ LF # rest)"
    using quoted_field [of "COMMA # quotedLine (g # fs) @ LF # rest" rows row field f] by simp
  also have "\<dots> = parseCsvLoop rows (row @ [field @ f]) [] False (quotedLine (g # fs) @ LF # rest)"
    by simp
  also have "\<dots> = parseCsvLoop (pushRow rows ((row @ [field @ f]) @ ([] @ g) # fs)) [] [] False rest"
    by (rule Cons.IH)
  finally show ?case by simp
qed

lemma quoted_text:
  "\<forall>r \<in> set rs. r \<noteq> [] \<Longrightarrow>
   parseCsvLoop rows [] [] False (quotedText rs) = rows @ filter nonBlankRow rs"
proof (induction rs arbitrary: rows)
  case Nil
  show ?case by (simp add: quotedText_def pushRow_def nonBlankRow_def)
next
  case (Cons r rs)
  from Cons.prems obtain f fs where r: "r = f # fs" by (cases r) auto
  have "parseCsvLoop rows [] [] False (quotedText (r # rs)) =
        parseCsvLoop rows [] [] False (quotedLine (f # fs) @ LF # quotedText rs)"
    by (simp add: quotedText_def r)
  also have "\<dots> = parseCsvLoop (pushRow rows r) [] [] False (quotedText rs)"
    using quoted_line [of rows "[]" "[]" f fs "quotedText rs"] by (simp add: r)
  also have "\<dots> = pushRow rows r @ filter nonBlankRow rs"
    using Cons.IH [of "pushRow rows r"] Cons.prems by simp
  finally show ?case by (simp add: pushRow_def)
qed

text \<open>
  C1. A double-quoted field is one field. Wherever a quoted field starts outside quotes
  and is not directly followed by another double quote, its decoded content \<open>s\<close>
  (commas, line breaks and double quotes included) is appended to the current field and
  the scan goes on outside quotes, with no field or row ended in between. A text of rows
  of quoted fields therefore parses back to those rows, the rows of empty fields dropped.
  The input \<open>"a,b\\nc"\<close> parses to one row of one field, \<open>a,b\\nc\<close>.
\<close>

theorem parseCsv_quoted_field:
  "(\<forall>rows row field s rest. \<not> nextIs DQUOTE rest \<longrightarrow>
      parseCsvLoop rows row field False (quoteField s @ rest) =
      parseCsvLoop rows row (field @ s) False rest) \<and>
   (\<forall>rs. (\<forall>r \<in> set rs. r \<noteq> []) \<longrightarrow> parseCsv (quotedText rs) = filter nonBlankRow rs) \<and>
   parseCsv [DQUOTE, CHR ''a'', COMMA, CHR ''b'', LF, CHR ''c'', DQUOTE] =
     [[[CHR ''a'', COMMA, CHR ''b'', LF, CHR ''c'']]]"
proof (intro conjI allI impI)
  fix rows row field s rest
  assume "\<not> nextIs DQUOTE rest"
  then show "parseCsvLoop rows row field False (quoteField s @ rest) =
      parseCsvLoop rows row (field @ s) False rest"
    by (rule quoted_field)
next
  fix rs :: "string list list"
  assume "\<forall>r \<in> set rs. r \<noteq> []"
  then show "parseCsv (quotedText rs) = filter nonBlankRow rs"
    using quoted_text [of rs "[]"] by (simp add: parseCsv_def)
next
  show "parseCsv [DQUOTE, CHR ''a'', COMMA, CHR ''b'', LF, CHR ''c'', DQUOTE] =
     [[[CHR ''a'', COMMA, CHR ''b'', LF, CHR ''c'']]]"
    by (simp add: parseCsv_def pushRow_def nonBlankRow_def)
qed

theorem parseCsv_quoted_field_witness:
  "parseCsv (quotedText [[[CHR ''x'', DQUOTE, COMMA, LF, CHR ''y''], []], [[]]]) =
     [[[CHR ''x'', DQUOTE, COMMA, LF, CHR ''y''], []]] \<and>
   parseCsvLoop [] [] [] False (quoteField [COMMA, DQUOTE] @ [COMMA, CHR ''z'']) =
     [[[COMMA, DQUOTE], [CHR ''z'']]]"
proof -
  have a: "\<forall>r \<in> set [[[CHR ''x'', DQUOTE, COMMA, LF, CHR ''y''], []], [[]]]. r \<noteq> []"
    by simp
  have b: "\<not> nextIs DQUOTE [COMMA, CHR ''z'']" by simp
  from parseCsv_quoted_field have
    "parseCsv (quotedText [[[CHR ''x'', DQUOTE, COMMA, LF, CHR ''y''], []], [[]]]) =
       filter nonBlankRow [[[CHR ''x'', DQUOTE, COMMA, LF, CHR ''y''], []], [[]]]"
    and "parseCsvLoop [] [] [] False (quoteField [COMMA, DQUOTE] @ [COMMA, CHR ''z'']) =
       parseCsvLoop [] [] ([] @ [COMMA, DQUOTE]) False [COMMA, CHR ''z'']"
    using a b by blast+
  then show ?thesis by (simp add: nonBlankRow_def pushRow_def)
qed

text \<open>
  C10. Outside quotes a carriage return ends the row whether or not a line feed follows:
  the scan at \<open>\\r\<close> continues exactly as the scan at \<open>\\n\<close> does, a line feed right
  after the \<open>\\r\<close> being skipped with it. An input with bare-CR line endings parses
  into several rows.
\<close>

theorem parseCsv_lone_cr:
  "parseCsvLoop rows row field False (CR # rest) =
     parseCsvLoop rows row field False (LF # (if nextIs LF rest then tl rest else rest)) \<and>
   parseCsv [CHR ''a'', COMMA, CHR ''b'', CR, CHR ''c'', CR, LF, CHR ''d''] =
     [[[CHR ''a''], [CHR ''b'']], [[CHR ''c'']], [[CHR ''d'']]]"
  by (simp add: parseCsv_def pushRow_def nonBlankRow_def)


section \<open>Properties of the CSV ingestion\<close>


lemma dedupeLoop_out: "dedupeLoop seen out ts = out @ dedupeLoop seen [] ts"
proof (induction ts arbitrary: seen out)
  case Nil
  show ?case by simp
next
  case (Cons t ts)
  show ?case
    using Cons.IH [of "insert (id' t) seen" "out @ [t]"] Cons.IH [of "insert (id' t) seen" "[t]"]
      Cons.IH [of seen out]
    by simp
qed

lemma dedupeLoop_Cons:
  "dedupeLoop seen [] (t # ts) =
     (if id' t \<in> seen then dedupeLoop seen [] ts
      else t # dedupeLoop (insert (id' t) seen) [] ts)"
  using dedupeLoop_out [of "insert (id' t) seen" "[t]" ts] by simp

lemma dedupeLoop_ids:
  "set (map id' (dedupeLoop seen [] ts)) = set (map id' ts) - seen"
proof (induction ts arbitrary: seen)
  case Nil
  show ?case by simp
next
  case (Cons t ts)
  show ?case
    using Cons.IH [of seen] Cons.IH [of "insert (id' t) seen"]
    by (auto simp del: dedupeLoop.simps simp add: dedupeLoop_Cons)
qed

lemma dedupeLoop_id_unseen:
  "p \<in> set (dedupeLoop seen [] ts) \<Longrightarrow> id' p \<notin> seen"
proof -
  assume "p \<in> set (dedupeLoop seen [] ts)"
  then have "id' p \<in> set (map id' (dedupeLoop seen [] ts))" by (simp only: set_map) blast
  then show ?thesis by (simp only: dedupeLoop_ids) simp
qed

lemma dedupeLoop_distinct: "distinct (map id' (dedupeLoop seen [] ts))"
proof (induction ts arbitrary: seen)
  case Nil
  show ?case by simp
next
  case (Cons t ts)
  have "id' t \<notin> set (map id' (dedupeLoop (insert (id' t) seen) [] ts))"
    by (simp only: dedupeLoop_ids) simp
  then show ?case
    using Cons.IH [of seen] Cons.IH [of "insert (id' t) seen"]
    by (simp del: dedupeLoop.simps add: dedupeLoop_Cons)
qed

lemma dedupeLoop_subseq: "subseq (dedupeLoop seen [] ts) ts"
proof (induction ts arbitrary: seen)
  case Nil
  show ?case by simp
next
  case (Cons t ts)
  show ?case
    using Cons.IH [of seen] Cons.IH [of "insert (id' t) seen"]
    by (auto simp del: dedupeLoop.simps simp add: dedupeLoop_Cons intro: list_emb_Cons)
qed

lemma dedupeLoop_first:
  "p \<in> set (dedupeLoop seen [] ts) \<Longrightarrow> List.find (\<lambda>q. id' q = id' p) ts = Some p"
proof (induction ts arbitrary: seen)
  case Nil
  then show ?case by simp
next
  case (Cons t ts)
  show ?case
  proof (cases "id' t \<in> seen")
    case True
    then have p: "p \<in> set (dedupeLoop seen [] ts)"
      using Cons.prems by (simp del: dedupeLoop.simps add: dedupeLoop_Cons)
    then have "id' t \<noteq> id' p" using True dedupeLoop_id_unseen [OF p] by auto
    then show ?thesis using Cons.IH [OF p] by simp
  next
    case False
    show ?thesis
    proof (cases "p = t")
      case True
      then show ?thesis by simp
    next
      case neq: False
      then have p: "p \<in> set (dedupeLoop (insert (id' t) seen) [] ts)"
        using Cons.prems False by (simp del: dedupeLoop.simps add: dedupeLoop_Cons)
      then have "id' t \<noteq> id' p" using dedupeLoop_id_unseen [OF p] by auto
      then show ?thesis using Cons.IH [OF p] by simp
    qed
  qed
qed

lemma buildRecordLoop_other:
  "k \<notin> set header \<Longrightarrow> buildRecordLoop header row rec k = rec k"
  by (induction header arbitrary: row rec) auto

lemma buildRecordLoop_dom:
  "dom (buildRecordLoop header row rec) =
     dom rec \<union> {k \<in> set header. k \<noteq> [] \<and> k \<noteq> ''__proto__''}"
  by (induction header arbitrary: row rec) auto

lemma buildRecordLoop_at:
  "i < length header \<Longrightarrow> header ! i \<noteq> [] \<Longrightarrow> header ! i \<noteq> ''__proto__'' \<Longrightarrow>
   header ! i \<notin> set (drop (Suc i) header) \<Longrightarrow>
   buildRecordLoop header row rec (header ! i) = Some (if i < length row then row ! i else [])"
proof (induction header arbitrary: i row rec)
  case Nil
  then show ?case by simp
next
  case (Cons key header)
  show ?case
  proof (cases i)
    case 0
    then have "key \<notin> set header" "key \<noteq> []" "key \<noteq> ''__proto__''" using Cons.prems by auto
    then show ?thesis using 0 by (cases row) (simp_all add: buildRecordLoop_other)
  next
    case (Suc j)
    then have "j < length header" "header ! j \<noteq> []" "header ! j \<noteq> ''__proto__''"
      "header ! j \<notin> set (drop (Suc j) header)"
      using Cons.prems by auto
    from Cons.IH [OF this] show ?thesis using Suc by (cases row) simp_all
  qed
qed

lemma buildRecordLoop_extra:
  "length header \<le> length row \<Longrightarrow>
   buildRecordLoop header (row @ extra) rec = buildRecordLoop header row rec"
proof (induction header arbitrary: row rec)
  case Nil
  show ?case by simp
next
  case (Cons key header)
  then obtain v vs where row: "row = v # vs" by (cases row) auto
  then have "length header \<le> length vs" using Cons.prems by simp
  from Cons.IH [OF this] show ?case by (simp add: row)
qed


lemma twoRows_parse:
  "parseCsv twoRowsCsv = [[''thread_id'', ''title_clean''], [''7'', ''first''], [''7'', ''second'']]"
  by (simp add: twoRowsCsv_def parseCsv_def pushRow_def nonBlankRow_def)

lemma trim_examples: "trim ''7'' = ''7''" "trim ''first'' = ''first''" "trim ''second'' = ''second''" "trim [] = []"
  by (simp_all add: trim_def isSpace_def)

text \<open>
  C2. Whatever the file holds and whatever \<open>crypto.randomUUID\<close> returns, no two posts
  of the list \<open>fetchCsvPosts\<close> returns have the same \<open>id\<close>. The list is
  \<open>dedupeById\<close> of the posts built from the data rows in order, and \<open>dedupeById\<close>
  keeps, for every id, the first post with that id and nothing else: its result has
  distinct ids, the same ids as its input, the order of its input, and every post in
  it is the first of the input with its id. Two rows with the same \<open>thread_id\<close> give
  exactly one post, built from the first row.
\<close>

theorem fetchCsvPosts_unique_ids:
  "distinct (map id' (threads (fetchCsvPosts readFile uuids))) \<and>
   (parseCsv csv = header # rows \<longrightarrow>
      threads (fetchCsvPosts (Inr csv) uuids) =
        dedupeById (toThreads uuids 0 (map (buildRecord header) rows))) \<and>
   distinct (map id' (dedupeById ts)) \<and>
   set (map id' (dedupeById ts)) = set (map id' ts) \<and>
   subseq (dedupeById ts) ts \<and>
   (\<forall>p \<in> set (dedupeById ts). List.find (\<lambda>q. id' q = id' p) ts = Some p) \<and>
   map (\<lambda>p. (id' p, title p)) (threads (fetchCsvPosts (Inr twoRowsCsv) uuids)) = [(''7'', ''first'')]"
proof (intro conjI impI ballI)
  show "distinct (map id' (threads (fetchCsvPosts readFile uuids)))"
    by (simp add: fetchCsvPosts_def dedupeById_def dedupeLoop_distinct
        split: sum.splits list.splits)
next
  assume "parseCsv csv = header # rows"
  then show "threads (fetchCsvPosts (Inr csv) uuids) =
        dedupeById (toThreads uuids 0 (map (buildRecord header) rows))"
    by (simp add: fetchCsvPosts_def)
next
  show "distinct (map id' (dedupeById ts))"
    by (simp add: dedupeById_def dedupeLoop_distinct)
next
  show "set (map id' (dedupeById ts)) = set (map id' ts)"
    using dedupeLoop_ids [of "{}" ts] by (simp add: dedupeById_def)
next
  show "subseq (dedupeById ts) ts"
    by (simp add: dedupeById_def dedupeLoop_subseq)
next
  fix p
  assume "p \<in> set (dedupeById ts)"
  then show "List.find (\<lambda>q. id' q = id' p) ts = Some p"
    using dedupeLoop_first [of p "{}" ts] by (simp add: dedupeById_def)
next
  show "map (\<lambda>p. (id' p, title p)) (threads (fetchCsvPosts (Inr twoRowsCsv) uuids)) = [(''7'', ''first'')]"
    by (simp add: fetchCsvPosts_def twoRows_parse buildRecord_def toThread_def orEmpty_def
        trim_examples dedupeById_def Let_def)
qed

theorem fetchCsvPosts_unique_ids_witness:
  "threads (fetchCsvPosts (Inr twoRowsCsv) (\<lambda>n. [])) =
     dedupeById (toThreads (\<lambda>n. []) 0
       (map (buildRecord [''thread_id'', ''title_clean'']) [[''7'', ''first''], [''7'', ''second'']])) \<and>
   length (threads (fetchCsvPosts (Inr twoRowsCsv) (\<lambda>n. []))) = 1"
proof -
  note inst = fetchCsvPosts_unique_ids [of "Inr twoRowsCsv" "\<lambda>n. []" twoRowsCsv
      "[''thread_id'', ''title_clean'']" "[[''7'', ''first''], [''7'', ''second'']]" "[] :: csvPost list"]
  have a: "threads (fetchCsvPosts (Inr twoRowsCsv) (\<lambda>n. [])) =
     dedupeById (toThreads (\<lambda>n. []) 0
       (map (buildRecord [''thread_id'', ''title_clean'']) [[''7'', ''first''], [''7'', ''second'']]))"
    using inst twoRows_parse by blast
  have "map (\<lambda>p. (id' p, title p)) (threads (fetchCsvPosts (Inr twoRowsCsv) (\<lambda>n. []))) = [(''7'', ''first'')]"
    using inst by blast
  then have "length (map (\<lambda>p. (id' p, title p)) (threads (fetchCsvPosts (Inr twoRowsCsv) (\<lambda>n. [])))) =
      length [(''7'', ''first'')]"
    by (rule arg_cong)
  then have b: "length (threads (fetchCsvPosts (Inr twoRowsCsv) (\<lambda>n. []))) = 1"
    by simp
  show ?thesis using a b by (rule conjI)
qed

text \<open>
  C3. \<open>fetchCsvPosts\<close> returns a value on every outcome of reading the file. When
  \<open>fs.readFile\<close> throws, the result is the empty list with the warning
  \<open>Failed to read CSV (message).\<close>; when the file parses to no rows, it is the empty list
  with the warning \<open>CSV file is empty.\<close>; and in no other case is there a warning.
\<close>

theorem fetchCsvPosts_never_throws:
  "fetchCsvPosts (Inl message) uuids =
     \<lparr> threads = [], source = ''csv'',
       warning = Some (''Failed to read CSV ('' @ message @ '').'') \<rparr> \<and>
   (parseCsv csv = [] \<longrightarrow>
      fetchCsvPosts (Inr csv) uuids =
        \<lparr> threads = [], source = ''csv'', warning = Some ''CSV file is empty.'' \<rparr>) \<and>
   (warning (fetchCsvPosts readFile uuids) = None \<longleftrightarrow>
      (\<exists>text. readFile = Inr text \<and> parseCsv text \<noteq> []))"
  by (auto simp add: fetchCsvPosts_def split: sum.splits list.splits)

theorem fetchCsvPosts_never_throws_witness:
  "parseCsv [LF, COMMA, LF] = [] \<and>
   fetchCsvPosts (Inr [LF, COMMA, LF]) (\<lambda>n. []) =
     \<lparr> threads = [], source = ''csv'', warning = Some ''CSV file is empty.'' \<rparr>"
proof -
  have e: "parseCsv [LF, COMMA, LF] = []"
    by (simp add: parseCsv_def pushRow_def nonBlankRow_def)
  then show ?thesis
    using fetchCsvPosts_never_throws [of undefined "\<lambda>n. []" "[LF, COMMA, LF]"] by blast
qed

text \<open>
  C4, as the code has it. For a non-empty row \<open>buildRecord\<close> binds exactly the header
  names that are neither empty nor \<open>__proto__\<close>. A header name at column \<open>i\<close> that
  does not occur again further right is bound to field \<open>i\<close> of the row, and to the
  empty string when the row has no field \<open>i\<close>: the keys of missing trailing columns
  are bound, not absent. Row fields beyond the length of the header change nothing.
\<close>

theorem buildRecord_positional:
  assumes "row \<noteq> []"
  shows "\<exists>rec. buildRecord header row = Some rec \<and>
     dom rec = {k \<in> set header. k \<noteq> [] \<and> k \<noteq> ''__proto__''} \<and>
     (\<forall>i < length header.
        header ! i \<noteq> [] \<and> header ! i \<noteq> ''__proto__'' \<and> header ! i \<notin> set (drop (Suc i) header) \<longrightarrow>
        rec (header ! i) = Some (if i < length row then row ! i else [])) \<and>
     (length header \<le> length row \<longrightarrow> buildRecord header (row @ extra) = Some rec)"
proof -
  let ?rec = "buildRecordLoop header row Map.empty"
  have "buildRecord header row = Some ?rec" using assms by (simp add: buildRecord_def)
  moreover have "dom ?rec = {k \<in> set header. k \<noteq> [] \<and> k \<noteq> ''__proto__''}"
    by (simp add: buildRecordLoop_dom)
  moreover have "\<forall>i < length header.
        header ! i \<noteq> [] \<and> header ! i \<noteq> ''__proto__'' \<and> header ! i \<notin> set (drop (Suc i) header) \<longrightarrow>
        ?rec (header ! i) = Some (if i < length row then row ! i else [])"
    using buildRecordLoop_at [of _ header row Map.empty] by blast
  moreover have "length header \<le> length row \<longrightarrow> buildRecord header (row @ extra) = Some ?rec"
    using assms by (simp add: buildRecord_def buildRecordLoop_extra)
  ultimately show ?thesis by blast
qed

theorem buildRecord_positional_witness:
  "[''x''] \<noteq> ([] :: string list) \<and>
   (\<exists>rec. buildRecord [''a'', ''b''] [''x''] = Some rec \<and> dom rec = {''a'', ''b''} \<and>
      rec ''a'' = Some ''x'' \<and> rec ''b'' = Some [])"
proof -
  have n: "[''x''] \<noteq> ([] :: string list)" by simp
  from buildRecord_positional [OF n, of "[''a'', ''b'']" "[]"]
  obtain rec where r: "buildRecord [''a'', ''b''] [''x''] = Some rec"
    and d: "dom rec = {k \<in> set [''a'', ''b'']. k \<noteq> [] \<and> k \<noteq> ''__proto__''}"
    and a: "\<forall>i < length [''a'', ''b''].
        [''a'', ''b''] ! i \<noteq> [] \<and> [''a'', ''b''] ! i \<noteq> ''__proto__'' \<and>
        [''a'', ''b''] ! i \<notin> set (drop (Suc i) [''a'', ''b'']) \<longrightarrow>
        rec ([''a'', ''b''] ! i) = Some (if i < length [''x''] then [''x''] ! i else [])"
    by blast
  have "rec ''a'' = Some ''x''" using a [rule_format, of 0] by simp
  moreover have "rec ''b'' = Some []" using a [rule_format, of 1] by simp
  moreover have "dom rec = {''a'', ''b''}" using d by auto
  ultimately show ?thesis using r n by blast
qed

text \<open>
  C4, as the specification states it, fails: with the header \<open>a,b\<close> and the one-field
  row \<open>x\<close>, the key \<open>b\<close> of the missing column is bound, to the empty string.
\<close>

theorem buildRecord_short_row_counterexample:
  "buildRecord [''a'', ''b''] [''x''] \<noteq> None \<and>
   the (buildRecord [''a'', ''b''] [''x'']) ''b'' = Some []"
  by (simp add: buildRecord_def)


section \<open>Properties of the grouping\<close>


lemma map_of_push:
  "map_of (pushMapUniqueById m k v) k' =
     (if k' = k
      then Some (case map_of m k of
                   None \<Rightarrow> [v]
                 | Some ex \<Rightarrow> if list_ex (\<lambda>item. id' item = id' v) ex then ex else ex @ [v])
      else map_of m k')"
  by (simp add: pushMapUniqueById_def update_conv' split: option.splits)

lemma distinct_push:
  "distinct (map fst m) \<Longrightarrow> distinct (map fst (pushMapUniqueById m k v))"
  by (simp add: pushMapUniqueById_def distinct_update split: option.splits)

lemma push_grows:
  "map_of m k' = Some b \<Longrightarrow>
   \<exists>b'. map_of (pushMapUniqueById m k v) k' = Some b' \<and> set b \<subseteq> set b'"
  by (auto simp add: map_of_push)

lemma push_has:
  "\<exists>b. map_of (pushMapUniqueById m k v) k = Some b \<and> id' v \<in> id' ` set b"
proof (cases "map_of m k")
  case None
  then show ?thesis by (simp add: map_of_push)
next
  case (Some ex)
  show ?thesis
  proof (cases "list_ex (\<lambda>item. id' item = id' v) ex")
    case True
    then obtain item where "item \<in> set ex" "id' item = id' v" by (auto simp add: list_ex_iff)
    then have "id' v \<in> id' ` set ex" by (metis imageI)
    then show ?thesis using Some True by (simp add: map_of_push)
  next
    case False
    then show ?thesis using Some by (simp add: map_of_push)
  qed
qed

lemma push_only:
  "map_of (pushMapUniqueById m k v) k' = Some b \<Longrightarrow> p \<in> set b \<Longrightarrow>
   (\<exists>b0. map_of m k' = Some b0 \<and> p \<in> set b0) \<or> (p = v \<and> k' = k)"
  by (auto simp add: map_of_push split: if_splits option.splits)


lemma pushKeys_Nil: "pushKeys [] t m = m"
  by (simp add: pushKeys_def)

lemma pushKeys_Cons: "pushKeys (k # ks) t m = pushKeys ks t (pushMapUniqueById m k t)"
  by (simp add: pushKeys_def)

lemma pushKeys_grows:
  "map_of m k' = Some b \<Longrightarrow> \<exists>b'. map_of (pushKeys ks t m) k' = Some b' \<and> set b \<subseteq> set b'"
proof (induction ks arbitrary: m b)
  case Nil
  then show ?case by (simp add: pushKeys_Nil)
next
  case (Cons k ks)
  from push_grows [OF Cons.prems, of k t] obtain b1
    where b1: "map_of (pushMapUniqueById m k t) k' = Some b1" "set b \<subseteq> set b1" by blast
  from Cons.IH [OF b1(1)] obtain b2
    where "map_of (pushKeys ks t (pushMapUniqueById m k t)) k' = Some b2" "set b1 \<subseteq> set b2" by blast
  then show ?case using b1(2) by (auto simp add: pushKeys_Cons)
qed

lemma pushKeys_has:
  "k \<in> set ks \<Longrightarrow> \<exists>b. map_of (pushKeys ks t m) k = Some b \<and> id' t \<in> id' ` set b"
proof (induction ks arbitrary: m)
  case Nil
  then show ?case by simp
next
  case (Cons k0 ks)
  show ?case
  proof (cases "k \<in> set ks")
    case True
    from Cons.IH [OF True] show ?thesis by (simp add: pushKeys_Cons)
  next
    case False
    then have k: "k0 = k" using Cons.prems by simp
    from push_has [of m k t] obtain b
      where b: "map_of (pushMapUniqueById m k t) k = Some b" "id' t \<in> id' ` set b" by blast
    from pushKeys_grows [OF b(1), of ks t] obtain b'
      where "map_of (pushKeys ks t (pushMapUniqueById m k t)) k = Some b'" "set b \<subseteq> set b'" by blast
    then show ?thesis using b(2) k by (auto simp add: pushKeys_Cons)
  qed
qed

lemma pushKeys_only:
  "map_of (pushKeys ks t m) k = Some b \<Longrightarrow> p \<in> set b \<Longrightarrow>
   (\<exists>b0. map_of m k = Some b0 \<and> p \<in> set b0) \<or> (p = t \<and> k \<in> set ks)"
proof (induction ks arbitrary: m)
  case Nil
  then show ?case by (simp add: pushKeys_Nil)
next
  case (Cons k0 ks)
  from Cons.IH [of "pushMapUniqueById m k0 t"] Cons.prems
  have "(\<exists>b0. map_of (pushMapUniqueById m k0 t) k = Some b0 \<and> p \<in> set b0) \<or> (p = t \<and> k \<in> set ks)"
    by (simp add: pushKeys_Cons)
  then show ?case using push_only [of m k0 t k _ p] by auto
qed


lemma pushKeys_distinct_keys:
  "distinct (map fst m) \<Longrightarrow> distinct (map fst (pushKeys ks t m))"
  by (induction ks arbitrary: m) (simp_all add: pushKeys_Nil pushKeys_Cons distinct_push)

lemma pushAll_Nil: "pushAll kf [] m = m"
  by (simp add: pushAll_def)

lemma pushAll_Cons: "pushAll kf (t # ts) m = pushAll kf ts (pushKeys (kf t) t m)"
  by (simp add: pushAll_def)

lemma pushAll_grows:
  "map_of m k' = Some b \<Longrightarrow> \<exists>b'. map_of (pushAll kf ts m) k' = Some b' \<and> set b \<subseteq> set b'"
proof (induction ts arbitrary: m b)
  case Nil
  then show ?case by (simp add: pushAll_Nil)
next
  case (Cons t ts)
  from pushKeys_grows [OF Cons.prems, of "kf t" t] obtain b1
    where b1: "map_of (pushKeys (kf t) t m) k' = Some b1" "set b \<subseteq> set b1" by blast
  from Cons.IH [OF b1(1)] obtain b2
    where "map_of (pushAll kf ts (pushKeys (kf t) t m)) k' = Some b2" "set b1 \<subseteq> set b2" by blast
  then show ?case using b1(2) by (auto simp add: pushAll_Cons)
qed

lemma pushAll_has:
  "t \<in> set ts \<Longrightarrow> k \<in> set (kf t) \<Longrightarrow>
   \<exists>b. map_of (pushAll kf ts m) k = Some b \<and> id' t \<in> id' ` set b"
proof (induction ts arbitrary: m)
  case Nil
  then show ?case by simp
next
  case (Cons t0 ts)
  show ?case
  proof (cases "t \<in> set ts")
    case True
    from Cons.IH [OF True Cons.prems(2)] show ?thesis by (simp add: pushAll_Cons)
  next
    case False
    then have t0: "t0 = t" using Cons.prems by simp
    from pushKeys_has [OF Cons.prems(2), of t m] obtain b
      where b: "map_of (pushKeys (kf t) t m) k = Some b" "id' t \<in> id' ` set b" by blast
    from pushAll_grows [OF b(1), of kf ts] obtain b'
      where "map_of (pushAll kf ts (pushKeys (kf t) t m)) k = Some b'" "set b \<subseteq> set b'" by blast
    then show ?thesis using b(2) t0 by (auto simp add: pushAll_Cons)
  qed
qed

lemma pushAll_only:
  "map_of (pushAll kf ts m) k = Some b \<Longrightarrow> p \<in> set b \<Longrightarrow>
   (\<exists>b0. map_of m k = Some b0 \<and> p \<in> set b0) \<or> (p \<in> set ts \<and> k \<in> set (kf p))"
proof (induction ts arbitrary: m)
  case Nil
  then show ?case by (simp add: pushAll_Nil)
next
  case (Cons t ts)
  from Cons.IH [of "pushKeys (kf t) t m"] Cons.prems
  have "(\<exists>b0. map_of (pushKeys (kf t) t m) k = Some b0 \<and> p \<in> set b0) \<or> (p \<in> set ts \<and> k \<in> set (kf p))"
    by (simp add: pushAll_Cons)
  then show ?case using pushKeys_only [of "kf t" t m k _ p] by auto
qed


lemma pushAll_distinct_keys:
  "distinct (map fst m) \<Longrightarrow> distinct (map fst (pushAll kf ts m))"
  by (induction ts arbitrary: m) (simp_all add: pushAll_Nil pushAll_Cons pushKeys_distinct_keys)

lemma groupLoop_pushAll:
  "groupLoop hg mg ts = (pushAll homeworkKeys ts hg, pushAll modelKeys ts mg)"
proof (induction ts arbitrary: hg mg)
  case Nil
  show ?case by (simp add: pushAll_Nil)
next
  case (Cons t ts)
  have h: "(let hw = homeworkOf t
        in if truthy hw then pushMapUniqueById hg (''hw:'' @ the hw) t else hg) =
        pushKeys (homeworkKeys t) t hg"
    by (simp add: homeworkKeys_def pushKeys_def Let_def)
  have m: "fold (\<lambda>model_v m. pushMapUniqueById m (''model:'' @ model_v) t) (modelsOf t) mg =
        pushKeys (modelKeys t) t mg"
    by (simp add: modelKeys_def pushKeys_def fold_map comp_def)
  show ?case by (simp only: groupLoop.simps h m Cons.IH pushAll_Cons)
qed




lemma dropSmall_fold:
  "set (fold (\<lambda>entry m. if length (snd entry) < 2 then AList.delete (fst entry) m else m) es m) =
   {e \<in> set m. \<not> (\<exists>e' \<in> set es. fst e' = fst e \<and> length (snd e') < 2)}"
proof (induction es arbitrary: m)
  case Nil
  show ?case by simp
next
  case (Cons e es)
  show ?case
  proof (cases "length (snd e) < 2")
    case True
    then show ?thesis by (simp add: Cons.IH AList.delete_eq) (auto simp add: case_prod_unfold)
  next
    case False
    then show ?thesis by (simp add: Cons.IH)
  qed
qed

lemma dropSmall_large: "e \<in> set (dropSmall m) \<Longrightarrow> 2 \<le> length (snd e)"
proof -
  assume "e \<in> set (dropSmall m)"
  then have "e \<in> set m" "\<not> (\<exists>e' \<in> set m. fst e' = fst e \<and> length (snd e') < 2)"
    unfolding dropSmall_def dropSmall_fold by simp_all
  then show ?thesis by force
qed

lemma dropSmall_fold_filter:
  "fold (\<lambda>entry m. if length (snd entry) < 2 then AList.delete (fst entry) m else m) es m =
   filter (\<lambda>x. \<not> (\<exists>e' \<in> set es. fst e' = fst x \<and> length (snd e') < 2)) m"
proof (induction es arbitrary: m)
  case Nil
  show ?case by simp
next
  case (Cons e es)
  show ?case
  proof (cases "length (snd e) < 2")
    case True
    have "fold (\<lambda>entry m. if length (snd entry) < 2 then AList.delete (fst entry) m else m) (e # es) m =
          filter (\<lambda>x. \<not> (\<exists>e' \<in> set es. fst e' = fst x \<and> length (snd e') < 2))
            (filter (\<lambda>x. fst e \<noteq> fst x) m)"
      using True by (simp add: Cons.IH AList.delete_eq case_prod_unfold)
    also have "\<dots> = filter (\<lambda>x. \<not> (\<exists>e' \<in> set (e # es). fst e' = fst x \<and> length (snd e') < 2)) m"
      unfolding filter_filter by (rule filter_cong [OF refl]) (use True in auto)
    finally show ?thesis .
  next
    case False
    have "fold (\<lambda>entry m. if length (snd entry) < 2 then AList.delete (fst entry) m else m) (e # es) m =
          filter (\<lambda>x. \<not> (\<exists>e' \<in> set es. fst e' = fst x \<and> length (snd e') < 2)) m"
      using False by (simp add: Cons.IH)
    also have "\<dots> = filter (\<lambda>x. \<not> (\<exists>e' \<in> set (e # es). fst e' = fst x \<and> length (snd e') < 2)) m"
      by (rule filter_cong [OF refl]) (use False in auto)
    finally show ?thesis .
  qed
qed

lemma dropSmall_filter:
  assumes d: "distinct (map fst m)"
  shows "dropSmall m = filter (\<lambda>e. 2 \<le> length (snd e)) m"
proof -
  have same: "\<And>x y. x \<in> set m \<Longrightarrow> y \<in> set m \<Longrightarrow> fst y = fst x \<Longrightarrow> y = x"
    using d by (metis eq_key_imp_eq_value prod.collapse)
  have "dropSmall m = filter (\<lambda>x. \<not> (\<exists>e' \<in> set m. fst e' = fst x \<and> length (snd e') < 2)) m"
    unfolding dropSmall_def by (rule dropSmall_fold_filter)
  also have "\<dots> = filter (\<lambda>e. 2 \<le> length (snd e)) m"
  proof (rule filter_cong [OF refl])
    fix x assume x: "x \<in> set m"
    show "(\<not> (\<exists>e' \<in> set m. fst e' = fst x \<and> length (snd e') < 2)) = (2 \<le> length (snd x))"
    proof (cases "length (snd x) < 2")
      case True
      then show ?thesis using x by auto
    next
      case False
      have "\<not> (\<exists>e' \<in> set m. fst e' = fst x \<and> length (snd e') < 2)"
      proof
        assume "\<exists>e' \<in> set m. fst e' = fst x \<and> length (snd e') < 2"
        then obtain e' where "e' \<in> set m" "fst e' = fst x" "length (snd e') < 2" by blast
        then show False using same [OF x] False by blast
      qed
      then show ?thesis using False by simp
    qed
  qed
  finally show ?thesis .
qed




lemma toLowerChar_colon: "toLowerChar c = CHR '':'' \<Longrightarrow> c = CHR '':''"
proof (rule ccontr)
  assume l: "toLowerChar c = CHR '':''" and n: "c \<noteq> CHR '':''"
  define k where "k = (of_char c :: nat)"
  have up: "(65 \<le> k \<and> k \<le> 90) \<or> (192 \<le> k \<and> k \<le> 222 \<and> k \<noteq> 215)"
    using l n unfolding toLowerChar_def k_def Let_def by (auto split: if_splits)
  then have "toLowerChar c = char_of (k + 32)"
    unfolding toLowerChar_def k_def Let_def by simp
  then have "(of_char (char_of (k + 32) :: char) :: nat) = of_char (CHR '':'')" using l by simp
  then have m: "(k + 32) mod 256 = 58" by simp
  have "k + 32 < 256" using up by linarith
  then have "(k + 32) mod 256 = k + 32" by simp
  then have "k + 32 = 58" using m by simp
  then show False using up by linarith
qed

lemma toLowerChar_of_colon: "toLowerChar (CHR '':'') = CHR '':''"
  by (simp add: toLowerChar_def)

lemma splitOn_head: "\<exists>ps. splitOn sep s = takeWhile (\<lambda>c. c \<noteq> sep) s # ps"
  by (induction s) (auto split: list.splits)

lemma second_split_hw:
  assumes "prefix ''hw:'' (toLowerCase tag)"
  shows "second (splitOn (CHR '':'') tag) = Some (takeWhile (\<lambda>c. c \<noteq> CHR '':'') (drop 3 tag))"
proof -
  from assms obtain zs where z: "toLowerCase tag = ''hw:'' @ zs" by (auto simp add: prefix_def)
  then have "length tag = 3 + length zs"
  proof -
    have "length (toLowerCase tag) = length (''hw:'' @ zs)" using z by simp
    then show ?thesis by (simp add: toLowerCase_def)
  qed
  then obtain a b c rest where t: "tag = a # b # c # rest"
    by (cases tag; cases "tl tag"; cases "tl (tl tag)") auto
  have la: "toLowerChar a = CHR ''h''" and lb: "toLowerChar b = CHR ''w''"
    and lc: "toLowerChar c = CHR '':''"
    using z unfolding t toLowerCase_def by simp_all
  have c: "c = CHR '':''" using lc by (rule toLowerChar_colon)
  have a: "a \<noteq> CHR '':''" using la toLowerChar_of_colon by auto
  have b: "b \<noteq> CHR '':''" using lb toLowerChar_of_colon by auto
  obtain ps where ps: "splitOn (CHR '':'') rest = takeWhile (\<lambda>c. c \<noteq> CHR '':'') rest # ps"
    using splitOn_head by blast
  have "splitOn (CHR '':'') tag = [a, b] # takeWhile (\<lambda>c. c \<noteq> CHR '':'') rest # ps"
    unfolding t c using a b ps by simp
  then show ?thesis by (simp add: second_def t)
qed

lemma firstCapture_priority:
  "i < length ps \<Longrightarrow> \<forall>j<i. rxExec (ps ! j) s = None \<Longrightarrow> rxExec (ps ! i) s = Some m \<Longrightarrow>
   truthy (group1 m) \<Longrightarrow> firstCapture ps s = group1 m"
proof (induction ps arbitrary: i)
  case Nil
  then show ?case by simp
next
  case (Cons p ps)
  show ?case
  proof (cases i)
    case 0
    then show ?thesis using Cons.prems by simp
  next
    case (Suc i')
    have p: "rxExec p s = None" using Cons.prems(2) Suc by auto
    have "firstCapture ps s = group1 m"
    proof (rule Cons.IH)
      show "i' < length ps" using Cons.prems(1) Suc by simp
      show "\<forall>j<i'. rxExec (ps ! j) s = None" using Cons.prems(2) Suc by auto
      show "rxExec (ps ! i') s = Some m" using Cons.prems(3) Suc by simp
      show "truthy (group1 m)" by (rule Cons.prems(4))
    qed
    then show ?thesis using p by simp
  qed
qed

lemma homeworkGroups_eq: "homeworkGroups (groupThreads ts) = pushAll homeworkKeys ts []"
  by (simp add: groupThreads_def groupLoop_pushAll)

lemma modelGroups_eq: "modelGroups (groupThreads ts) = dropSmall (pushAll modelKeys ts [])"
  by (simp add: groupThreads_def groupLoop_pushAll)


lemma homeworkKeys_tag:
  assumes "List.find (\<lambda>tag. prefix ''hw:'' (toLowerCase tag)) (tagsOf thread) = Some tag"
  shows "homeworkOf thread = Some (trim (takeWhile (\<lambda>c. c \<noteq> CHR '':'') (drop 3 tag)))"
proof -
  have "prefix ''hw:'' (toLowerCase tag)"
    using assms by (auto simp add: find_Some_iff)
  then show ?thesis using assms by (simp add: homeworkOf_def second_split_hw)
qed

text \<open>
  C5, as the code has it. Let \<open>tag\<close> be the first tag of a post whose lower case starts
  with \<open>hw:\<close>, and \<open>v\<close> the trimmed text of the tag between its first colon and the
  next colon (or its end). The value \<open>hw\<close> of the post is \<open>v\<close>, whatever the title
  and the body say. When \<open>v\<close> is not empty, the homework group \<open>hw:v\<close> exists and
  holds a post with the id of this post, which is the post itself when the ids of the
  list are distinct; and the post is in no homework group but \<open>hw:v\<close>. When no tag
  starts with \<open>hw:\<close>, the value is what \<open>detectHomework\<close> finds in the text, and that
  is the capture of the first pattern, in the order of the list, that matches. The post
  with the tag \<open>hw:3\<close> and the title \<open>Assignment 5\<close> is grouped under \<open>hw:3\<close>,
  and so is the one with the title \<open>HW 7 and Assignment 5\<close>, whose text alone gives 7.
\<close>

theorem groupThreads_hw_tag:
  "(thread \<in> set posts_v \<and>
    List.find (\<lambda>tag. prefix ''hw:'' (toLowerCase tag)) (tagsOf thread) = Some tag \<and>
    v = trim (takeWhile (\<lambda>c. c \<noteq> CHR '':'') (drop 3 tag)) \<longrightarrow>
      homeworkOf thread = Some v \<and>
      (v \<noteq> [] \<longrightarrow>
         (\<exists>b. map_of (homeworkGroups (groupThreads posts_v)) (''hw:'' @ v) = Some b \<and>
              id' thread \<in> id' ` set b \<and> (distinct (map id' posts_v) \<longrightarrow> thread \<in> set b))) \<and>
      (\<forall>k b. map_of (homeworkGroups (groupThreads posts_v)) k = Some b \<and> thread \<in> set b \<longrightarrow>
             v \<noteq> [] \<and> k = ''hw:'' @ v)) \<and>
   (List.find (\<lambda>tag. prefix ''hw:'' (toLowerCase tag)) (tagsOf thread) = None \<longrightarrow>
      homeworkOf thread = detectHomework (textOf thread)) \<and>
   (i < length homeworkPatterns \<and>
    (\<forall>j<i. rxExec (homeworkPatterns ! j) (toLowerCase s) = None) \<and>
    rxExec (homeworkPatterns ! i) (toLowerCase s) = Some m \<and> truthy (group1 m) \<longrightarrow>
      detectHomework s = group1 m) \<and>
   homeworkGroups (groupThreads [examplePost ''1'' ''Assignment 5'' [''hw:3'']]) =
     [(''hw:3'', [examplePost ''1'' ''Assignment 5'' [''hw:3'']])] \<and>
   detectHomework ''Assignment 5'' = Some ''5'' \<and>
   detectHomework (textOf (examplePost ''2'' ''HW 7 and Assignment 5'' [''hw:3''])) = Some ''7'' \<and>
   homeworkGroups (groupThreads [examplePost ''2'' ''HW 7 and Assignment 5'' [''hw:3'']]) =
     [(''hw:3'', [examplePost ''2'' ''HW 7 and Assignment 5'' [''hw:3'']])]"
proof (intro conjI impI)
  assume a: "thread \<in> set posts_v \<and>
    List.find (\<lambda>tag. prefix ''hw:'' (toLowerCase tag)) (tagsOf thread) = Some tag \<and>
    v = trim (takeWhile (\<lambda>c. c \<noteq> CHR '':'') (drop 3 tag))"
  then have hw: "homeworkOf thread = Some v" using homeworkKeys_tag [of thread tag] by simp
  show "homeworkOf thread = Some v" by (rule hw)
  have only: "\<And>k b. map_of (homeworkGroups (groupThreads posts_v)) k = Some b \<Longrightarrow> thread \<in> set b \<Longrightarrow>
      v \<noteq> [] \<and> k = ''hw:'' @ v"
  proof -
    fix k b
    assume "map_of (homeworkGroups (groupThreads posts_v)) k = Some b" "thread \<in> set b"
    then have "k \<in> set (homeworkKeys thread)"
      using pushAll_only [of homeworkKeys posts_v "[]" k b thread] by (simp add: homeworkGroups_eq)
    then show "v \<noteq> [] \<and> k = ''hw:'' @ v"
      using hw by (auto simp add: homeworkKeys_def split: if_splits)
  qed
  show "\<forall>k b. map_of (homeworkGroups (groupThreads posts_v)) k = Some b \<and> thread \<in> set b \<longrightarrow>
             v \<noteq> [] \<and> k = ''hw:'' @ v"
    using only by blast
  {
    assume v: "v \<noteq> []"
    then have k: "''hw:'' @ v \<in> set (homeworkKeys thread)"
      using hw by (simp add: homeworkKeys_def)
    from a have t: "thread \<in> set posts_v" by simp
    from pushAll_has [of thread posts_v "''hw:'' @ v" homeworkKeys "[]"] t k obtain b
      where b: "map_of (homeworkGroups (groupThreads posts_v)) (''hw:'' @ v) = Some b"
        "id' thread \<in> id' ` set b"
      by (auto simp add: homeworkGroups_eq)
    have "distinct (map id' posts_v) \<longrightarrow> thread \<in> set b"
    proof
      assume d: "distinct (map id' posts_v)"
      from b(2) obtain q where q: "q \<in> set b" "id' q = id' thread" by auto
      have "q \<in> set posts_v"
        using pushAll_only [of homeworkKeys posts_v "[]" "''hw:'' @ v" b q] b(1) q(1)
        by (simp add: homeworkGroups_eq)
      then have "q = thread" using d t q(2) by (meson distinct_map inj_onD)
      then show "thread \<in> set b" using q(1) by simp
    qed
    then show "\<exists>b. map_of (homeworkGroups (groupThreads posts_v)) (''hw:'' @ v) = Some b \<and>
              id' thread \<in> id' ` set b \<and> (distinct (map id' posts_v) \<longrightarrow> thread \<in> set b)"
      using b by blast
  }
next
  assume "List.find (\<lambda>tag. prefix ''hw:'' (toLowerCase tag)) (tagsOf thread) = None"
  then show "homeworkOf thread = detectHomework (textOf thread)"
    by (simp add: homeworkOf_def)
next
  assume "i < length homeworkPatterns \<and>
    (\<forall>j<i. rxExec (homeworkPatterns ! j) (toLowerCase s) = None) \<and>
    rxExec (homeworkPatterns ! i) (toLowerCase s) = Some m \<and> truthy (group1 m)"
  then show "detectHomework s = group1 m"
    unfolding detectHomework_def using firstCapture_priority [of i homeworkPatterns "toLowerCase s" m]
    by blast
next
  show "homeworkGroups (groupThreads [examplePost ''1'' ''Assignment 5'' [''hw:3'']]) =
     [(''hw:3'', [examplePost ''1'' ''Assignment 5'' [''hw:3'']])]"
    by (simp only: homeworkGroups_eq) code_simp
next
  show "detectHomework ''Assignment 5'' = Some ''5''" by code_simp
next
  show "detectHomework (textOf (examplePost ''2'' ''HW 7 and Assignment 5'' [''hw:3''])) = Some ''7''"
    by code_simp
next
  show "homeworkGroups (groupThreads [examplePost ''2'' ''HW 7 and Assignment 5'' [''hw:3'']]) =
     [(''hw:3'', [examplePost ''2'' ''HW 7 and Assignment 5'' [''hw:3'']])]"
    by (simp only: homeworkGroups_eq) code_simp
qed


theorem groupThreads_hw_tag_witness:
  "homeworkOf (examplePost ''1'' ''Assignment 5'' [''HW: 3 :x'']) = Some ''3'' \<and>
   (\<exists>b. map_of (homeworkGroups (groupThreads [examplePost ''1'' ''Assignment 5'' [''HW: 3 :x'']]))
          ''hw:3'' = Some b \<and> examplePost ''1'' ''Assignment 5'' [''HW: 3 :x''] \<in> set b) \<and>
   homeworkOf (examplePost ''1'' ''Assignment 5'' []) = detectHomework (textOf (examplePost ''1'' ''Assignment 5'' [])) \<and>
   detectHomework ''Assignment 5'' = Some ''5''"
proof -
  let ?p = "examplePost ''1'' ''Assignment 5'' [''HW: 3 :x'']"
  let ?q = "examplePost ''1'' ''Assignment 5'' []"
  let ?m = "\<lparr> whole = ''assignment 5'', group1 = Some ''5'' \<rparr>"
  have f: "List.find (\<lambda>tag. prefix ''hw:'' (toLowerCase tag)) (tagsOf ?p) = Some ''HW: 3 :x''"
    by code_simp
  have v: "''3'' = trim (takeWhile (\<lambda>c. c \<noteq> CHR '':'') (drop 3 ''HW: 3 :x''))"
    by code_simp
  have n: "List.find (\<lambda>tag. prefix ''hw:'' (toLowerCase tag)) (tagsOf ?q) = None"
    by code_simp
  have i: "(3::nat) < length homeworkPatterns" by code_simp
  have j0: "rxExec (homeworkPatterns ! 0) (toLowerCase ''Assignment 5'') = None" by code_simp
  have j1: "rxExec (homeworkPatterns ! 1) (toLowerCase ''Assignment 5'') = None" by code_simp
  have j2: "rxExec (homeworkPatterns ! 2) (toLowerCase ''Assignment 5'') = None" by code_simp
  have j: "\<forall>j<3. rxExec (homeworkPatterns ! j) (toLowerCase ''Assignment 5'') = None"
  proof (intro allI impI)
    fix j :: nat
    assume "j < 3"
    then have "j = 0 \<or> j = 1 \<or> j = 2" by arith
    then show "rxExec (homeworkPatterns ! j) (toLowerCase ''Assignment 5'') = None"
      using j0 j1 j2 by blast
  qed
  have m: "rxExec (homeworkPatterns ! 3) (toLowerCase ''Assignment 5'') = Some ?m" by code_simp
  have t: "truthy (group1 ?m)" by simp
  have d: "distinct (map id' [?p])" by simp
  note inst = groupThreads_hw_tag [of ?p "[?p]" "''HW: 3 :x''" "''3''" 3 "''Assignment 5''" ?m]
  note inst2 = groupThreads_hw_tag [of ?q]
  have mem: "?p \<in> set [?p]" by simp
  have pre: "?p \<in> set [?p] \<and>
      List.find (\<lambda>tag. prefix ''hw:'' (toLowerCase tag)) (tagsOf ?p) = Some ''HW: 3 :x'' \<and>
      ''3'' = trim (takeWhile (\<lambda>c. c \<noteq> CHR '':'') (drop 3 ''HW: 3 :x''))"
    using mem f v by (intro conjI)
  note first = inst [THEN conjunct1, THEN mp, OF pre]
  have a: "homeworkOf ?p = Some ''3''" using first by (rule conjunct1)
  have ne: "''3'' \<noteq> ([] :: string)" by simp
  from first [THEN conjunct2, THEN conjunct1, THEN mp, OF ne] obtain b
    where b1: "map_of (homeworkGroups (groupThreads [?p])) (''hw:'' @ ''3'') = Some b"
      and b2: "distinct (map id' [?p]) \<longrightarrow> ?p \<in> set b"
    by blast
  have b: "\<exists>b. map_of (homeworkGroups (groupThreads [?p])) ''hw:3'' = Some b \<and> ?p \<in> set b"
    using b1 b2 d by auto
  have c: "homeworkOf ?q = detectHomework (textOf ?q)"
    using inst2 [THEN conjunct2, THEN conjunct1, THEN mp, OF n] .
  have pre3: "3 < length homeworkPatterns \<and>
      (\<forall>j<3. rxExec (homeworkPatterns ! j) (toLowerCase ''Assignment 5'') = None) \<and>
      rxExec (homeworkPatterns ! 3) (toLowerCase ''Assignment 5'') = Some ?m \<and> truthy (group1 ?m)"
    using i j m t by (intro conjI)
  have e: "detectHomework ''Assignment 5'' = group1 ?m"
    using inst [THEN conjunct2, THEN conjunct2, THEN conjunct1, THEN mp, OF pre3] .
  show ?thesis using a b c e by simp
qed

text \<open>
  C5, as the specification states it, fails: a post whose only tag is \<open>hw:\<close> carries
  a tag that starts with \<open>hw:\<close> and is put into no homework group, and a post with the
  tags \<open>hw:3\<close> and \<open>hw:4\<close> is not put into the group \<open>hw:4\<close>.
\<close>

theorem groupThreads_hw_tag_counterexample:
  "homeworkGroups (groupThreads [examplePost ''1'' ''Assignment 5'' [''hw:'']]) = [] \<and>
   map_of (homeworkGroups (groupThreads [examplePost ''1'' ''Assignment 5'' [''hw:3'', ''hw:4'']]))
     ''hw:4'' = None"
  by (simp only: homeworkGroups_eq) code_simp

text \<open>
  C6. Every group of \<open>modelGroups\<close> has at least two posts: \<open>modelGroups\<close> is what
  the scan built, without the groups of fewer than two posts. \<open>homeworkGroups\<close> is what
  the scan built, with nothing removed: every post with a homework value has its id in
  the group of that value, whatever the size of the group. Of three posts, one on
  homework 1 naming claude and two naming gemini, the model group of claude (one post)
  is absent, the one of gemini (two posts) is present, and so is the homework group of
  one post.
\<close>

theorem groupThreads_model_groups_min_two:
  "(\<forall>e \<in> set (modelGroups (groupThreads posts_v)). 2 \<le> length (snd e)) \<and>
   modelGroups (groupThreads posts_v) =
     filter (\<lambda>e. 2 \<le> length (snd e)) (snd (groupLoop [] [] posts_v)) \<and>
   homeworkGroups (groupThreads posts_v) = fst (groupLoop [] [] posts_v) \<and>
   (\<forall>t \<in> set posts_v. truthy (homeworkOf t) \<longrightarrow>
      (\<exists>b. map_of (homeworkGroups (groupThreads posts_v)) (''hw:'' @ the (homeworkOf t)) = Some b \<and>
           id' t \<in> id' ` set b)) \<and>
   groupThreads
      [examplePost ''a'' ''hw 1 claude'' [], examplePost ''b'' ''gemini'' [],
       examplePost ''c'' ''Gemini 2'' []] =
     \<lparr> homeworkGroups = [(''hw:1'', [examplePost ''a'' ''hw 1 claude'' []])],
       modelGroups = [(''model:gemini'',
                       [examplePost ''b'' ''gemini'' [], examplePost ''c'' ''Gemini 2'' []])] \<rparr>"
proof (intro conjI ballI impI)
  fix e
  assume "e \<in> set (modelGroups (groupThreads posts_v))"
  then show "2 \<le> length (snd e)" by (simp add: modelGroups_eq dropSmall_large)
next
  have "distinct (map fst (pushAll modelKeys posts_v []))"
    by (rule pushAll_distinct_keys) simp
  then show "modelGroups (groupThreads posts_v) =
     filter (\<lambda>e. 2 \<le> length (snd e)) (snd (groupLoop [] [] posts_v))"
    by (simp add: modelGroups_eq groupLoop_pushAll dropSmall_filter)
next
  show "homeworkGroups (groupThreads posts_v) = fst (groupLoop [] [] posts_v)"
    by (simp add: homeworkGroups_eq groupLoop_pushAll)
next
  fix t
  assume t: "t \<in> set posts_v" and h: "truthy (homeworkOf t)"
  then have k: "''hw:'' @ the (homeworkOf t) \<in> set (homeworkKeys t)"
    by (simp add: homeworkKeys_def)
  show "\<exists>b. map_of (homeworkGroups (groupThreads posts_v)) (''hw:'' @ the (homeworkOf t)) = Some b \<and>
           id' t \<in> id' ` set b"
    using pushAll_has [of t posts_v "''hw:'' @ the (homeworkOf t)" homeworkKeys "[]"] t k
    by (simp add: homeworkGroups_eq)
next
  show "groupThreads
      [examplePost ''a'' ''hw 1 claude'' [], examplePost ''b'' ''gemini'' [],
       examplePost ''c'' ''Gemini 2'' []] =
     \<lparr> homeworkGroups = [(''hw:1'', [examplePost ''a'' ''hw 1 claude'' []])],
       modelGroups = [(''model:gemini'',
                       [examplePost ''b'' ''gemini'' [], examplePost ''c'' ''Gemini 2'' []])] \<rparr>"
    by code_simp
qed

theorem groupThreads_model_groups_min_two_witness:
  "2 \<le> length [examplePost ''b'' ''gemini'' [], examplePost ''c'' ''Gemini 2'' []] \<and>
   map_of (modelGroups (groupThreads
      [examplePost ''a'' ''hw 1 claude'' [], examplePost ''b'' ''gemini'' [],
       examplePost ''c'' ''Gemini 2'' []])) ''model:claude'' = None \<and>
   map_of (homeworkGroups (groupThreads
      [examplePost ''a'' ''hw 1 claude'' [], examplePost ''b'' ''gemini'' [],
       examplePost ''c'' ''Gemini 2'' []])) ''hw:1'' = Some [examplePost ''a'' ''hw 1 claude'' []]"
proof -
  let ?ps = "[examplePost ''a'' ''hw 1 claude'' [], examplePost ''b'' ''gemini'' [],
       examplePost ''c'' ''Gemini 2'' []]"
  let ?e = "(''model:gemini'', [examplePost ''b'' ''gemini'' [], examplePost ''c'' ''Gemini 2'' []])"
  note inst = groupThreads_model_groups_min_two [of ?ps]
  have g: "groupThreads ?ps =
     \<lparr> homeworkGroups = [(''hw:1'', [examplePost ''a'' ''hw 1 claude'' []])],
       modelGroups = [?e] \<rparr>"
    using inst by blast
  have "?e \<in> set (modelGroups (groupThreads ?ps))" by (simp add: g)
  then have "2 \<le> length (snd ?e)" using inst by blast
  then show ?thesis by (simp add: g)
qed


section \<open>Properties of the retry loop\<close>

lemma retryable_not_ok: "retryable (status r) \<Longrightarrow> \<not> ok r"
  by (auto simp add: retryable_def ok_def)

lemma loop_body:
  "(if leNum a M then
        (case respond e (fetches w) of
           NetworkError message \<Rightarrow> Some (Inl message, w\<lparr>fetches := Suc (fetches w)\<rparr>)
         | Response r \<Rightarrow>
             (if ok r then
                (case jsonBody r of
                   Inl message \<Rightarrow> Some (Inl message, w\<lparr>fetches := Suc (fetches w)\<rparr>)
                 | Inr reply \<Rightarrow>
                     (if \<not> truthy (replyContent reply)
                      then Some (Inl ''OpenAI response missing content'',
                                 w\<lparr>fetches := Suc (fetches w)\<rparr>)
                      else Some (Inr \<lparr> content = the (replyContent reply),
                                        modelUsed = (case replyModel reply of
                                                       None \<Rightarrow> mn | Some m \<Rightarrow> m) \<rparr>,
                                 w\<lparr>fetches := Suc (fetches w)\<rparr>)))
              else if retryable (status r) then
                f e mn M (incr a)
                  (w\<lparr>fetches := Suc (fetches w), draws := Suc (draws w),
                     slept := slept w @
                       [jsMax (retryAfterMs e (retryAfter r))
                          (Num (backoffMs e a (random e (draws w))))]\<rparr>)
              else Some (Inl (''OpenAI responded with '' @ showNat (status r) @
                               (if textBody r \<noteq> [] then '': '' @ take 140 (textBody r) else [])),
                         w\<lparr>fetches := Suc (fetches w)\<rparr>)))
      else Some (Inl ''OpenAI retries exhausted (429/5xx).'', w)) =
     (if leNum a M then
        (if retryableAt e (fetches w)
         then f e mn M (incr a)
                (w\<lparr>fetches := Suc (fetches w), draws := Suc (draws w),
                   slept := slept w @ [napAt e a (fetches w) (draws w)]\<rparr>)
         else Some (settle e mn (fetches w), w\<lparr>fetches := Suc (fetches w)\<rparr>))
      else Some (Inl ''OpenAI retries exhausted (429/5xx).'', w))"
proof (cases "respond e (fetches w)")
  case (NetworkError message)
  then show ?thesis by (simp add: retryableAt_def settle_def)
next
  case (Response r)
  show ?thesis
  proof (cases "ok r")
    case True
    then have "\<not> retryable (status r)" using retryable_not_ok by blast
    then show ?thesis using Response True
      by (cases "jsonBody r") (simp_all add: retryableAt_def settle_def)
  next
    case False
    then show ?thesis using Response
      by (simp add: retryableAt_def settle_def napAt_def headerAt_def)
  qed
qed

lemma attemptLoop_step:
  "attemptLoop e mn M a w =
     (if leNum a M then
        (if retryableAt e (fetches w)
         then attemptLoop e mn M (incr a)
                (w\<lparr>fetches := Suc (fetches w), draws := Suc (draws w),
                   slept := slept w @ [napAt e a (fetches w) (draws w)]\<rparr>)
         else Some (settle e mn (fetches w), w\<lparr>fetches := Suc (fetches w)\<rparr>))
      else Some (Inl ''OpenAI retries exhausted (429/5xx).'', w))"
  by (subst attemptLoop.simps) (rule loop_body)

lemma naps_0: "naps e a n d 0 = []"
  by (simp add: naps_def)

lemma naps_Suc: "naps e a n d (Suc k) = napAt e a n d # naps e (incr a) (Suc n) (Suc d) k"
proof -
  have "[0 ..< Suc k] = 0 # map Suc [0 ..< k]"
    by (simp add: upt_conv_Cons map_Suc_upt del: upt_Suc)
  then show ?thesis by (simp add: naps_def comp_def funpow_swap1 del: upt_Suc)
qed


lemma attemptLoop_run:
  assumes "attemptLoop e mn M a w = Some y"
  shows "\<exists>k. (\<forall>i<k. leNum ((incr ^^ i) a) M \<and> retryableAt e (fetches w + i)) \<and>
       slept (snd y) = slept w @ naps e a (fetches w) (draws w) k \<and>
       draws (snd y) = draws w + k \<and> cache (snd y) = cache w \<and>
       ((\<not> leNum ((incr ^^ k) a) M \<and> fst y = Inl ''OpenAI retries exhausted (429/5xx).'' \<and>
         fetches (snd y) = fetches w + k) \<or>
        (leNum ((incr ^^ k) a) M \<and> \<not> retryableAt e (fetches w + k) \<and>
         fst y = settle e mn (fetches w + k) \<and> fetches (snd y) = fetches w + Suc k))"
  using assms
proof (induct rule: attemptLoop.raw_induct [rotated 1, consumes 1, case_names step])
  case (step f e mn M a w y)
  note IH = step(1) and hyp = step(2)
  have body: "(if leNum a M then
        (if retryableAt e (fetches w)
         then f e mn M (incr a)
                (w\<lparr>fetches := Suc (fetches w), draws := Suc (draws w),
                   slept := slept w @ [napAt e a (fetches w) (draws w)]\<rparr>)
         else Some (settle e mn (fetches w), w\<lparr>fetches := Suc (fetches w)\<rparr>))
      else Some (Inl ''OpenAI retries exhausted (429/5xx).'', w)) = Some y"
    using hyp by (simp only: loop_body [where f = f])
  show ?case
  proof (cases "leNum a M")
    case False
    then have "y = (Inl ''OpenAI retries exhausted (429/5xx).'', w)" using body by simp
    then show ?thesis using False by (intro exI [of _ 0]) (simp add: naps_0)
  next
    case True
    show ?thesis
    proof (cases "retryableAt e (fetches w)")
      case False
      then have "y = (settle e mn (fetches w), w\<lparr>fetches := Suc (fetches w)\<rparr>)"
        using body True by simp
      then show ?thesis using True False by (intro exI [of _ 0]) (simp add: naps_0)
    next
      case retry: True
      let ?w1 = "w\<lparr>fetches := Suc (fetches w), draws := Suc (draws w),
                   slept := slept w @ [napAt e a (fetches w) (draws w)]\<rparr>"
      have "f e mn M (incr a) ?w1 = Some y" using body True retry by simp
      from IH [OF this] obtain k where
        k: "(\<forall>i<k. leNum ((incr ^^ i) (incr a)) M \<and> retryableAt e (fetches ?w1 + i)) \<and>
            slept (snd y) = slept ?w1 @ naps e (incr a) (fetches ?w1) (draws ?w1) k \<and>
            draws (snd y) = draws ?w1 + k \<and> cache (snd y) = cache ?w1 \<and>
            ((\<not> leNum ((incr ^^ k) (incr a)) M \<and> fst y = Inl ''OpenAI retries exhausted (429/5xx).'' \<and>
               fetches (snd y) = fetches ?w1 + k) \<or>
             (leNum ((incr ^^ k) (incr a)) M \<and> \<not> retryableAt e (fetches ?w1 + k) \<and>
               fst y = settle e mn (fetches ?w1 + k) \<and> fetches (snd y) = fetches ?w1 + Suc k))" ..
      note k1 = k [THEN conjunct1]
      note k2 = k [THEN conjunct2, THEN conjunct1]
      note k3 = k [THEN conjunct2, THEN conjunct2, THEN conjunct1]
      note k4 = k [THEN conjunct2, THEN conjunct2, THEN conjunct2, THEN conjunct1]
      note k5 = k [THEN conjunct2, THEN conjunct2, THEN conjunct2, THEN conjunct2]
      have a1: "\<forall>i<Suc k. leNum ((incr ^^ i) a) M \<and> retryableAt e (fetches w + i)"
      proof (intro allI impI)
        fix i assume i: "i < Suc k"
        show "leNum ((incr ^^ i) a) M \<and> retryableAt e (fetches w + i)"
        proof (cases i)
          case 0
          then show ?thesis using True retry by simp
        next
          case (Suc j)
          then have "j < k" using i by simp
          then show ?thesis using k1 Suc by (simp add: funpow_swap1)
        qed
      qed
      have a2: "slept (snd y) = slept w @ naps e a (fetches w) (draws w) (Suc k)"
        using k2 by (simp add: naps_Suc)
      have a3: "draws (snd y) = draws w + Suc k" using k3 by simp
      have a4: "cache (snd y) = cache w" using k4 by simp
      have a5: "(\<not> leNum ((incr ^^ Suc k) a) M \<and> fst y = Inl ''OpenAI retries exhausted (429/5xx).'' \<and>
               fetches (snd y) = fetches w + Suc k) \<or>
             (leNum ((incr ^^ Suc k) a) M \<and> \<not> retryableAt e (fetches w + Suc k) \<and>
               fst y = settle e mn (fetches w + Suc k) \<and> fetches (snd y) = fetches w + Suc (Suc k))"
        using k5 by (simp add: funpow_swap1)
      show ?thesis by (rule exI [of _ "Suc k"]) (intro conjI a1 a2 a3 a4 a5)
    qed
  qed
qed



lemma jitter_floor:
  "jitter e maxMs r = real_of_int \<lfloor>times e r (real maxMs)\<rfloor>"
  by (simp add: jitter_def)



lemma maxAttempts_one: "maxAttemptsOf e \<noteq> NaN \<Longrightarrow> leNum 1 (maxAttemptsOf e)"
proof -
  assume n: "maxAttemptsOf e \<noteq> NaN"
  define x where "x = (case AI_OPENAI_MAX_RETRIES e of None \<Rightarrow> Num 5 | Some s \<Rightarrow> number e s)"
  have m: "maxAttemptsOf e = jsMax (Num 1) x" by (simp add: maxAttemptsOf_def x_def)
  show ?thesis using n unfolding m by (cases x) simp_all
qed











section \<open>Properties of the remote summarization\<close>

lemma attemptLoop_cache:
  assumes "attemptLoop e mn M a w = Some y"
  shows "attemptLoop e mn M a (w\<lparr>cache := c\<rparr>) = Some (fst y, (snd y)\<lparr>cache := c\<rparr>)"
  using assms
proof (induct rule: attemptLoop.raw_induct [rotated 1, consumes 1, case_names step])
  case (step f e mn M a w y)
  note IH = step(1) and hyp = step(2)
  have body: "(if leNum a M then
        (if retryableAt e (fetches w)
         then f e mn M (incr a)
                (w\<lparr>fetches := Suc (fetches w), draws := Suc (draws w),
                   slept := slept w @ [napAt e a (fetches w) (draws w)]\<rparr>)
         else Some (settle e mn (fetches w), w\<lparr>fetches := Suc (fetches w)\<rparr>))
      else Some (Inl ''OpenAI retries exhausted (429/5xx).'', w)) = Some y"
    using hyp by (simp only: loop_body [where f = f])
  show ?case
  proof (cases "leNum a M")
    case False
    then have "y = (Inl ''OpenAI retries exhausted (429/5xx).'', w)" using body by simp
    then show ?thesis using False by (subst attemptLoop_step) simp
  next
    case True
    show ?thesis
    proof (cases "retryableAt e (fetches w)")
      case False
      then have "y = (settle e mn (fetches w), w\<lparr>fetches := Suc (fetches w)\<rparr>)"
        using body True by simp
      then show ?thesis using True False by (subst attemptLoop_step) simp
    next
      case retry: True
      let ?w1 = "w\<lparr>fetches := Suc (fetches w), draws := Suc (draws w),
                   slept := slept w @ [napAt e a (fetches w) (draws w)]\<rparr>"
      have "f e mn M (incr a) ?w1 = Some y" using body True retry by simp
      from IH [OF this]
      have ih: "attemptLoop e mn M (incr a) (?w1\<lparr>cache := c\<rparr>) = Some (fst y, (snd y)\<lparr>cache := c\<rparr>)" .
      have weq: "(w\<lparr>cache := c\<rparr>)\<lparr>fetches := Suc (fetches w), draws := Suc (draws w),
                   slept := slept w @ [napAt e a (fetches w) (draws w)]\<rparr> = ?w1\<lparr>cache := c\<rparr>"
        by simp
      have "attemptLoop e mn M a (w\<lparr>cache := c\<rparr>) =
            attemptLoop e mn M (incr a)
              ((w\<lparr>cache := c\<rparr>)\<lparr>fetches := Suc (fetches w), draws := Suc (draws w),
                   slept := slept w @ [napAt e a (fetches w) (draws w)]\<rparr>)"
        using True retry by (subst attemptLoop_step) simp
      also have "\<dots> = attemptLoop e mn M (incr a) (?w1\<lparr>cache := c\<rparr>)"
        by (simp only: weq)
      also have "\<dots> = Some (fst y, (snd y)\<lparr>cache := c\<rparr>)" by (rule ih)
      finally show ?thesis .
    qed
  qed
qed

lemma openaiChatCompletion_cache:
  "openaiChatCompletion e mn (w\<lparr>cache := c\<rparr>) =
     map_option (\<lambda>y. (fst y, (snd y)\<lparr>cache := c\<rparr>)) (openaiChatCompletion e mn w)"
proof (cases "attemptLoop e mn (maxAttemptsOf e) 1 w")
  case (Some y)
  then show ?thesis
    using attemptLoop_cache [OF Some, of c] by (simp add: openaiChatCompletion_def)
next
  case None
  have "attemptLoop e mn (maxAttemptsOf e) 1 (w\<lparr>cache := c\<rparr>) = None"
  proof (rule ccontr)
    assume "attemptLoop e mn (maxAttemptsOf e) 1 (w\<lparr>cache := c\<rparr>) \<noteq> None"
    then obtain y where y: "attemptLoop e mn (maxAttemptsOf e) 1 (w\<lparr>cache := c\<rparr>) = Some y" by blast
    from attemptLoop_cache [OF y, of "cache w"] show False using None by simp
  qed
  then show ?thesis using None by (simp add: openaiChatCompletion_def)
qed

lemma openaiChatCompletion_keeps_cache:
  "openaiChatCompletion e mn w = Some (res, w') \<Longrightarrow> cache w' = cache w"
proof -
  assume "openaiChatCompletion e mn w = Some (res, w')"
  then have run: "attemptLoop e mn (maxAttemptsOf e) 1 w = Some (res, w')"
    by (simp add: openaiChatCompletion_def)
  from attemptLoop_run [OF run] show ?thesis by auto
qed


lemma callOpenAI_hit:
  "cache w (overviewCacheKey e ps) = Some v \<Longrightarrow> callOpenAI e ps w = Some (Inr v, w)"
  by (simp add: callOpenAI_def getCache_def)

lemma callOpenAI_stores:
  assumes "callOpenAI e ps w = Some (Inr v, w1)"
  shows "cache w1 (overviewCacheKey e ps) = Some v"
proof (cases "cache w (overviewCacheKey e ps)")
  case (Some u)
  then show ?thesis using assms by (simp add: callOpenAI_def getCache_def)
next
  case None
  show ?thesis
  proof (cases "openaiChatCompletion e (modelOf e) w")
    case none: None
    then show ?thesis using assms None by (simp add: callOpenAI_def getCache_def)
  next
    case (Some y)
    obtain res w' where y: "y = (res, w')" by (cases y)
    show ?thesis
      using assms None Some y
      by (cases res) (auto simp add: callOpenAI_def getCache_def setCache_def Let_def)
  qed
qed

lemma callOpenAI_failure_keeps_cache:
  assumes "callOpenAI e ps w = Some (Inl m, w1)"
  shows "cache w1 = cache w"
proof (cases "cache w (overviewCacheKey e ps)")
  case (Some u)
  then show ?thesis using assms by (simp add: callOpenAI_def getCache_def)
next
  case None
  show ?thesis
  proof (cases "openaiChatCompletion e (modelOf e) w")
    case none: None
    then show ?thesis using assms None by (simp add: callOpenAI_def getCache_def)
  next
    case (Some y)
    obtain res w' where y: "y = (res, w')" by (cases y)
    have "cache w' = cache w" using Some y openaiChatCompletion_keeps_cache by blast
    then show ?thesis
      using assms None Some y
      by (cases res) (auto simp add: callOpenAI_def getCache_def setCache_def Let_def)
  qed
qed

lemma summarizeGroup_hit:
  "cache w (groupCacheKey e k (sampleOf items)) = Some v \<Longrightarrow>
   summarizeGroup e l k items w = Some (Inr v, w)"
  by (simp add: summarizeGroup_def getCache_def sampleOf_def)


lemma summarizeGroup_miss:
  assumes "getCache w (groupCacheKey e k (sampleOf items)) = None"
    and "openaiChatCompletion e (modelOf e) w = Some (Inr c, w1)"
  shows "summarizeGroup e l k items w =
     (case decodeGroup e l k (length items) (sampleOf items) (content c) of
        None \<Rightarrow> Some (Inl typeErrorMessage, w1)
      | Some result \<Rightarrow>
          Some (Inr (Group result),
                setCache w1 (groupCacheKey e k (sampleOf items)) (Group result)))"
  using assms unfolding sampleOf_def by (simp add: summarizeGroup_def Let_def)

lemma summarizeGroup_miss_value:
  assumes "getCache w (groupCacheKey e k (sampleOf items)) = None"
    and "summarizeGroup e l k items w = Some (Inr v, w')"
  shows "\<exists>c w1 g. openaiChatCompletion e (modelOf e) w = Some (Inr c, w1) \<and>
     decodeGroup e l k (length items) (sampleOf items) (content c) = Some g \<and>
     v = Group g \<and> w' = setCache w1 (groupCacheKey e k (sampleOf items)) (Group g)"
proof (cases "openaiChatCompletion e (modelOf e) w")
  case None
  then show ?thesis
    using assms unfolding sampleOf_def by (simp add: summarizeGroup_def Let_def)
next
  case (Some y)
  obtain r w1 where y: "y = (r, w1)" by (cases y)
  show ?thesis
  proof (cases r)
    case (Inl m)
    then show ?thesis
      using assms Some y unfolding sampleOf_def by (simp add: summarizeGroup_def Let_def)
  next
    case (Inr c)
    have run: "openaiChatCompletion e (modelOf e) w = Some (Inr c, w1)" using Some y Inr by simp
    note eq = summarizeGroup_miss [OF assms(1) run, of l]
    show ?thesis
    proof (cases "decodeGroup e l k (length items) (sampleOf items) (content c)")
      case None
      then show ?thesis using assms(2) eq by simp
    next
      case g: (Some g)
      have "summarizeGroup e l k items w =
          Some (Inr (Group g), setCache w1 (groupCacheKey e k (sampleOf items)) (Group g))"
        using eq g by simp
      with assms(2)
      have "v = Group g \<and> w' = setCache w1 (groupCacheKey e k (sampleOf items)) (Group g)"
        by auto
      then have v: "v = Group g"
        and w': "w' = setCache w1 (groupCacheKey e k (sampleOf items)) (Group g)"
        by blast+
      show ?thesis
        by (rule exI [of _ c], rule exI [of _ w1], rule exI [of _ g]) (intro conjI run g v w')
    qed
  qed
qed

lemma summarizeGroup_stores:
  assumes "summarizeGroup e l k items w = Some (Inr v, w1)"
  shows "cache w1 (groupCacheKey e k (sampleOf items)) = Some v"
proof (cases "cache w (groupCacheKey e k (sampleOf items))")
  case (Some u)
  then show ?thesis using assms by (simp add: summarizeGroup_def getCache_def sampleOf_def)
next
  case None
  then have miss: "getCache w (groupCacheKey e k (sampleOf items)) = None"
    by (simp add: getCache_def)
  from summarizeGroup_miss_value [OF miss assms] obtain c w2 g where
    "v = Group g \<and> w1 = setCache w2 (groupCacheKey e k (sampleOf items)) (Group g)" by blast
  then show ?thesis by (simp add: setCache_def)
qed

lemma summarizeGroup_failure_keeps_cache:
  assumes "summarizeGroup e l k items w = Some (Inl m, w1)"
  shows "cache w1 = cache w"
proof (cases "cache w (groupCacheKey e k (sampleOf items))")
  case (Some u)
  then show ?thesis using assms by (simp add: summarizeGroup_def getCache_def sampleOf_def)
next
  case None
  then have miss: "getCache w (groupCacheKey e k (sampleOf items)) = None"
    by (simp add: getCache_def)
  show ?thesis
  proof (cases "openaiChatCompletion e (modelOf e) w")
    case none: None
    then show ?thesis
      using assms miss unfolding sampleOf_def by (simp add: summarizeGroup_def Let_def)
  next
    case (Some y)
    obtain r w2 where y: "y = (r, w2)" by (cases y)
    have keep: "cache w2 = cache w" using Some y openaiChatCompletion_keeps_cache by blast
    show ?thesis
    proof (cases r)
      case (Inl m')
      then have "w1 = w2"
        using assms miss Some y unfolding sampleOf_def by (simp add: summarizeGroup_def Let_def)
      then show ?thesis using keep by simp
    next
      case (Inr c)
      have run: "openaiChatCompletion e (modelOf e) w = Some (Inr c, w2)" using Some y Inr by simp
      note eq = summarizeGroup_miss [OF miss run, of l]
      have "w1 = w2"
        using assms eq
        by (cases "decodeGroup e l k (length items) (sampleOf items) (content c)") simp_all
      then show ?thesis using keep by simp
    qed
  qed
qed









lemma toPostSummary_other:
  "\<forall>kvs. p \<noteq> JObj kvs \<Longrightarrow>
   toPostSummary p = Some \<lparr> summaryId = [], summaryTitle = [], takeaway = [] \<rparr>"
  by (cases p) (simp_all add: toPostSummary_def)














lemma settled_call:
  assumes "maxAttemptsOf e \<noteq> NaN" and "\<not> retryableAt e (fetches w)"
  shows "openaiChatCompletion e mn w = Some (settle e mn (fetches w), w\<lparr>fetches := Suc (fetches w)\<rparr>)"
proof -
  have "leNum 1 (maxAttemptsOf e)" using assms(1) by (rule maxAttempts_one)
  then have one: "leNum (Suc 0) (maxAttemptsOf e)" by simp
  show ?thesis unfolding openaiChatCompletion_def
    by (subst attemptLoop_step) (simp add: one assms(2))
qed

lemma badRequest_call:
  "openaiChatCompletion (constEnv badRequest) mn w =
     Some (Inl ''OpenAI responded with 400: no'', w\<lparr>fetches := Suc (fetches w)\<rparr>)"
proof -
  have M: "maxAttemptsOf (constEnv badRequest) \<noteq> NaN"
    by (simp add: maxAttemptsOf_def constEnv_def)
  have r: "\<not> retryableAt (constEnv badRequest) (fetches w)"
    by (simp add: retryableAt_def constEnv_def badRequest_def retryable_def)
  have n: "showNat 400 = ''400''" by code_simp
  have s: "settle (constEnv badRequest) mn (fetches w) = Inl ''OpenAI responded with 400: no''"
    by (simp add: settle_def constEnv_def badRequest_def ok_def n)
  show ?thesis using settled_call [OF M r, of mn] by (simp add: s)
qed


lemma answer_call:
  assumes "text \<noteq> []"
  shows "openaiChatCompletion (constEnv (answer text)) mn w =
     Some (Inr \<lparr> content = text, modelUsed = mn \<rparr>, w\<lparr>fetches := Suc (fetches w)\<rparr>)"
proof -
  have M: "maxAttemptsOf (constEnv (answer text)) \<noteq> NaN"
    by (simp add: maxAttemptsOf_def constEnv_def)
  have r: "\<not> retryableAt (constEnv (answer text)) (fetches w)"
    by (simp add: retryableAt_def constEnv_def answer_def retryable_def)
  have s: "settle (constEnv (answer text)) mn (fetches w) = Inr \<lparr> content = text, modelUsed = mn \<rparr>"
    using assms by (simp add: settle_def constEnv_def answer_def ok_def)
  show ?thesis using settled_call [OF M r, of mn] by (simp add: s)
qed

lemma okReply_call:
  "openaiChatCompletion (constEnv okReply) mn w =
     Some (Inr \<lparr> content = ''{}'', modelUsed = mn \<rparr>, w\<lparr>fetches := Suc (fetches w)\<rparr>)"
  unfolding okReply_def by (rule answer_call) simp

lemma decodeGroup_foreign_entry_example:
  "map_option posts
     (decodeGroup foreignEnv ''Homework 1'' ''hw:1'' 1 (sampleOf [examplePost ''1'' ''T'' []]) ''{}'') =
     Some [\<lparr> summaryId = ''x'', summaryTitle = ''t'', takeaway = ''k'' \<rparr>]"
  by code_simp




















text \<open>
  C9, as the code has it. When an invocation of \<open>callOpenAI\<close> or of \<open>summarizeGroup\<close>
  returns a value, that value is in the cache under the key of its input; a later
  invocation whose input has the same key, in a state where the cache still holds that
  entry, returns the same value and leaves the state as it is: no request is made. An
  invocation that fails stores nothing. The key is the digest of the serialized object
  of kind, model name (and group key) and sample. The retry loop neither reads nor
  writes the cache: with another cache it runs the same way and returns the same.
\<close>

theorem remote_cache_second_call:
  "(callOpenAI e ps w = Some (Inr v, w1) \<and> overviewCacheKey e ps' = overviewCacheKey e ps \<and>
    cache w2 (overviewCacheKey e ps) = cache w1 (overviewCacheKey e ps) \<longrightarrow>
      callOpenAI e ps' w2 = Some (Inr v, w2)) \<and>
   (summarizeGroup e l k items w = Some (Inr v, w1) \<and>
    groupCacheKey e k' (sampleOf items') = groupCacheKey e k (sampleOf items) \<and>
    cache w2 (groupCacheKey e k (sampleOf items)) = cache w1 (groupCacheKey e k (sampleOf items)) \<longrightarrow>
      summarizeGroup e l' k' items' w2 = Some (Inr v, w2)) \<and>
   (callOpenAI e ps w = Some (Inl m, w1) \<longrightarrow> cache w1 = cache w) \<and>
   (summarizeGroup e l k items w = Some (Inl m, w1) \<longrightarrow> cache w1 = cache w) \<and>
   overviewCacheKey e ps =
     sha256 e (stringify e (JObj [(''kind'', JStr ''overview''), (''model'', JStr (modelOf e)),
                                (''sample'', JArr (map overviewSampleJson (take 24 ps)))])) \<and>
   groupCacheKey e k (sampleOf items) =
     sha256 e (stringify e (JObj [(''kind'', JStr ''group''), (''model'', JStr (modelOf e)),
                                (''key'', JStr k),
                                (''sample'', JArr (map sampleJson (sampleOf items)))])) \<and>
   openaiChatCompletion e mn (w\<lparr>cache := c\<rparr>) =
     map_option (\<lambda>y. (fst y, (snd y)\<lparr>cache := c\<rparr>)) (openaiChatCompletion e mn w)"
proof (intro conjI impI)
  assume a: "callOpenAI e ps w = Some (Inr v, w1) \<and> overviewCacheKey e ps' = overviewCacheKey e ps \<and>
    cache w2 (overviewCacheKey e ps) = cache w1 (overviewCacheKey e ps)"
  then have "cache w1 (overviewCacheKey e ps) = Some v" using callOpenAI_stores by blast
  then have "cache w2 (overviewCacheKey e ps') = Some v" using a by simp
  then show "callOpenAI e ps' w2 = Some (Inr v, w2)" by (rule callOpenAI_hit)
next
  assume a: "summarizeGroup e l k items w = Some (Inr v, w1) \<and>
    groupCacheKey e k' (sampleOf items') = groupCacheKey e k (sampleOf items) \<and>
    cache w2 (groupCacheKey e k (sampleOf items)) = cache w1 (groupCacheKey e k (sampleOf items))"
  then have "cache w1 (groupCacheKey e k (sampleOf items)) = Some v"
    using summarizeGroup_stores by blast
  then have "cache w2 (groupCacheKey e k' (sampleOf items')) = Some v" using a by simp
  then show "summarizeGroup e l' k' items' w2 = Some (Inr v, w2)" by (rule summarizeGroup_hit)
next
  assume "callOpenAI e ps w = Some (Inl m, w1)"
  then show "cache w1 = cache w" by (rule callOpenAI_failure_keeps_cache)
next
  assume "summarizeGroup e l k items w = Some (Inl m, w1)"
  then show "cache w1 = cache w" by (rule summarizeGroup_failure_keeps_cache)
next
  show "overviewCacheKey e ps =
     sha256 e (stringify e (JObj [(''kind'', JStr ''overview''), (''model'', JStr (modelOf e)),
                                (''sample'', JArr (map overviewSampleJson (take 24 ps)))]))"
    by (simp add: overviewCacheKey_def hashKey_def)
next
  show "groupCacheKey e k (sampleOf items) =
     sha256 e (stringify e (JObj [(''kind'', JStr ''group''), (''model'', JStr (modelOf e)),
                                (''key'', JStr k),
                                (''sample'', JArr (map sampleJson (sampleOf items)))]))"
    by (simp add: groupCacheKey_def hashKey_def)
next
  show "openaiChatCompletion e mn (w\<lparr>cache := c\<rparr>) =
     map_option (\<lambda>y. (fst y, (snd y)\<lparr>cache := c\<rparr>)) (openaiChatCompletion e mn w)"
    by (rule openaiChatCompletion_cache)
qed

theorem remote_cache_second_call_witness:
  "\<exists>v w1. callOpenAI (constEnv okReply) ([] :: post list) world0 = Some (Inr v, w1) \<and>
          fetches w1 = 1 \<and>
          callOpenAI (constEnv okReply) ([] :: post list) w1 = Some (Inr v, w1)"
proof -
  let ?E = "constEnv okReply"
  obtain v w1 where first: "callOpenAI ?E ([] :: post list) world0 = Some (Inr v, w1)"
    and f: "fetches w1 = 1"
    by (simp add: callOpenAI_def getCache_def okReply_call setCache_def Let_def world0_def)
  have pre: "callOpenAI ?E ([] :: post list) world0 = Some (Inr v, w1) \<and>
      overviewCacheKey ?E ([] :: post list) = overviewCacheKey ?E ([] :: post list) \<and>
      cache w1 (overviewCacheKey ?E ([] :: post list)) = cache w1 (overviewCacheKey ?E ([] :: post list))"
    using first by simp
  have "callOpenAI ?E ([] :: post list) w1 = Some (Inr v, w1)"
    using remote_cache_second_call [of ?E "[] :: post list" world0 v w1 "[] :: post list" w1,
        THEN conjunct1, THEN mp, OF pre] .
  then show ?thesis using first f by blast
qed

text \<open>
  C9, as the specification states it, fails: when the first of two invocations with the
  same input is answered by a 400, nothing is cached, and the second invocation makes a
  request of its own: two requests in all.
\<close>

theorem remote_cache_second_call_counterexample:
  "callOpenAI (constEnv badRequest) ([] :: post list) world0 =
     Some (Inl ''OpenAI responded with 400: no'', world0\<lparr>fetches := 1\<rparr>) \<and>
   callOpenAI (constEnv badRequest) ([] :: post list) (world0\<lparr>fetches := 1\<rparr>) =
     Some (Inl ''OpenAI responded with 400: no'', world0\<lparr>fetches := 2\<rparr>)"
  by (simp add: callOpenAI_def getCache_def badRequest_call world0_def)

end
